theory Spec2Isabelle
  imports Complex_Main "HOL-Library.Word" "HOL-Library.AList"
begin

section \<open>The CloudWatch Logs output plugin (cloudwatchlogs.go)\<close>

text \<open>
  A shallow embedding of \<^verbatim>\<open>plugins/outputs/cloudwatchlogs/cloudwatchlogs.go\<close>.
  Go structs are records, Go maps are association lists read with \<open>map_of\<close> and
  written with \<open>AList.update\<close> and \<open>AList.delete\<close>, pointers to \<open>cwDest\<close> are
  addresses into an explicit heap, the metrics of a slice are addresses into a list
  of metric objects, and every method that mutates its receiver returns the updated
  value.
\<close>

subsection \<open>Constants\<close>

definition LogGroupNameTag :: string where
  "LogGroupNameTag = ''log_group_name''"

definition LogStreamNameTag :: string where
  "LogStreamNameTag = ''log_stream_name''"

definition LogTimestampField :: string where
  "LogTimestampField = ''log_timestamp''"

definition LogEntryField :: string where
  "LogEntryField = ''value''"

definition attributesInFields :: string where
  "attributesInFields = ''attributesInFields''"

text \<open>\<open>time.Duration\<close> is a count of nanoseconds.\<close>

type_synonym Duration = int

definition time_Second :: Duration where
  "time_Second = 1000000000"

definition time_Minute :: Duration where
  "time_Minute = 60 * time_Second"

definition time_Hour :: Duration where
  "time_Hour = 60 * time_Minute"

definition defaultFlushTimeout :: Duration where
  "defaultFlushTimeout = 5 * time_Second"

definition maxRetryTimeout :: Duration where
  "maxRetryTimeout = 14 * 24 * time_Hour + 10 * time_Minute"

definition metricRetryTimeout :: Duration where
  "metricRetryTimeout = 2 * time_Minute"

subsection \<open>Strings\<close>

text \<open>
  \<open>strings.HasPrefix\<close>, \<open>strings.HasSuffix\<close>, \<open>strings.Contains\<close> and
  \<open>strings.Split\<close> (with a one-byte separator) of the Go standard library, on byte
  strings.
\<close>

definition HasPrefix :: "string \<Rightarrow> string \<Rightarrow> bool" where
  "HasPrefix s p \<longleftrightarrow> length p \<le> length s \<and> take (length p) s = p"

definition HasSuffix :: "string \<Rightarrow> string \<Rightarrow> bool" where
  "HasSuffix s x \<longleftrightarrow> length x \<le> length s \<and> drop (length s - length x) s = x"

fun Contains :: "string \<Rightarrow> string \<Rightarrow> bool" where
  "Contains [] sub = (sub = [])"
| "Contains (c # cs) sub = (HasPrefix (c # cs) sub \<or> Contains cs sub)"

fun Split :: "string \<Rightarrow> char \<Rightarrow> string list" where
  "Split [] sep = [[]]"
| "Split (c # cs) sep =
     (if c = sep then [] # Split cs sep
      else (case Split cs sep of
              [] \<Rightarrow> [[c]]
            | w # ws \<Rightarrow> (c # w) # ws))"

text \<open>The literal \<^verbatim>\<open>"\"CloudWatchMetrics\""\<close>: the key with its two quotation marks.\<close>

definition emfMarker :: string where
  "emfMarker = CHR 0x22 # ''CloudWatchMetrics'' @ [CHR 0x22]"

subsection \<open>Field values\<close>

text \<open>
  A \<open>float64\<close> is the rational it denotes, or one of the three values that denote
  none. Converting an integer rounds it to 53 significant bits, ties to even.
\<close>

datatype float64 = Finite rat | NaN | PosInf | NegInf

function bit_length :: "int \<Rightarrow> nat" where
  "bit_length n = (if n \<le> 0 then 0 else Suc (bit_length (n div 2)))"
  by pat_completeness auto
termination
  by (relation "measure nat") auto

declare bit_length.simps [simp del]

definition round53 :: "int \<Rightarrow> int" where
  "round53 n =
     (let a = \<bar>n\<bar>;
          b = bit_length a
      in if b \<le> 53 then n
         else let k = b - 53;
                  q = a div 2 ^ k;
                  r = a mod 2 ^ k;
                  h = 2 ^ (k - 1);
                  q' = (if h < r \<or> (r = h \<and> odd q) then q + 1 else q)
              in sgn n * (q' * 2 ^ k))"

definition float64_of_int :: "int \<Rightarrow> float64" where
  "float64_of_int n = Finite (of_int (round53 n))"

text \<open>\<open>time.Time\<close>: the seconds since the epoch that \<open>Unix()\<close> returns, and the nanoseconds.\<close>

datatype Time = Time (Unix: "64 word") (Nanosecond: nat)

text \<open>
  The dynamic type of a field value (\<open>interface{}\<close>): the ten types the type switch of
  \<open>getLogEventFromMetric\<close> names, and \<open>VOther\<close> for a value of any other type, with the
  name of that type. \<open>int\<close> and \<open>uint\<close> are 64 bits wide.
\<close>

datatype field_value =
    VInt "64 word"
  | VInt32 "32 word"
  | VInt64 "64 word"
  | VUint "64 word"
  | VUint32 "32 word"
  | VUint64 "64 word"
  | VFloat64 float64
  | VBool bool
  | VString string
  | VTime Time
  | VOther string

subsection \<open>Records of the telemetry pipeline\<close>

text \<open>
  \<open>telegraf.Metric\<close>: a name, tags, typed fields and a time. \<open>Tags()\<close> and \<open>Fields()\<close>
  return a fresh map each time, so removing a tag from the metric does not change
  a map read before.
\<close>

record Metric =
  m_name :: string
  m_tags :: "(string \<times> string) list"
  m_fields :: "(string \<times> field_value) list"
  m_time :: Time

definition Tags :: "Metric \<Rightarrow> (string \<times> string) list" where
  "Tags m = AList.clearjunk (m_tags m)"

definition Fields :: "Metric \<Rightarrow> (string \<times> field_value) list" where
  "Fields m = AList.clearjunk (m_fields m)"

definition HasField :: "Metric \<Rightarrow> string \<Rightarrow> bool" where
  "HasField m k \<longleftrightarrow> map_of (m_fields m) k \<noteq> None"

definition RemoveTag :: "string \<Rightarrow> Metric \<Rightarrow> Metric" where
  "RemoveTag k m = m\<lparr>m_tags := AList.delete k (m_tags m)\<rparr>"

definition RemoveField :: "string \<Rightarrow> Metric \<Rightarrow> Metric" where
  "RemoveField k m = m\<lparr>m_fields := AList.delete k (m_fields m)\<rparr>"

text \<open>\<open>logs.LogEvent\<close>, and \<open>structuredLogEvent\<close> which implements it.\<close>

record LogEvent =
  Message :: string
  EventTime :: Time

record Target =
  Group :: string
  Stream :: string

datatype error = ErrOutputStopped | ErrNoLogGroupName string

datatype log_entry = Errorf string | Warnf string

subsection \<open>The delivery client and the pusher\<close>

datatype CredentialConfig =
  CredentialConfig string string string string string string string

datatype handler =
    RequestCompressionHandler "string list"
  | CustomHeaderHandler string string

datatype retryer = Retryer nat

record cwl_client =
  Credentials :: CredentialConfig
  Endpoint :: string
  BuildHandlers :: "handler list"
  ClientRetryer :: "retryer option"

text \<open>
  The \<open>Service\<close> of a pusher is an interface: the SDK's client, or any other
  implementation, on which the type assertions of \<open>switchToEMF\<close> and \<open>setRetryer\<close>
  fail.
\<close>

datatype service = CloudWatchLogsClient cwl_client | OtherService

definition cloudwatchlogs_New :: "CredentialConfig \<Rightarrow> string \<Rightarrow> cwl_client" where
  "cloudwatchlogs_New cred endpoint =
     \<lparr>Credentials = cred, Endpoint = endpoint, BuildHandlers = [], ClientRetryer = None\<rparr>"

definition PushBackNamed :: "handler \<Rightarrow> cwl_client \<Rightarrow> cwl_client" where
  "PushBackNamed h cl = cl\<lparr>BuildHandlers := BuildHandlers cl @ [h]\<rparr>"

text \<open>
  Modelled from the spec: the two enqueue disciplines of the pusher, blocking and
  non-blocking, as the tag of an enqueue request.
\<close>

datatype enqueue = Blocking LogEvent | NonBlocking LogEvent

text \<open>
  Modelled from the spec: the pusher of \<^verbatim>\<open>pusher.go\<close>, the per-Target batching
  engine, with its Target, client, flush interval, retry window and stop signal.
  It owns one bounded queue, the single meeting point of the producers and the
  background flush cycle: \<open>queue\<close> holds the events accepted and not yet flushed,
  oldest first, and \<open>queueLimit\<close> is its capacity. \<open>waiting\<close> holds the events of the
  blocking callers that are suspended because the queue was full, oldest first; a
  call whose event is in \<open>waiting\<close> has not returned. \<open>flushed\<close> holds the events the
  flush cycle has taken from the queue. \<open>requests\<close> records, in order, every enqueue
  request the pusher has received with the discipline that was asked for. In a
  sequence of calls, a call that follows a suspension is taken against the queue as
  the suspension has left it.
\<close>

record pusher =
  PusherTarget :: Target
  Service :: service
  FlushTimeout :: Duration
  RetryDuration :: Duration
  requests :: "enqueue list"
  queue :: "LogEvent list"
  queueLimit :: nat
  waiting :: "LogEvent list"
  flushed :: "LogEvent list"
  pusherStopped :: bool

text \<open>Modelled from the spec: the queue is saturated when it holds \<open>queueLimit\<close> events.\<close>

definition queueFull :: "pusher \<Rightarrow> bool" where
  "queueFull p \<longleftrightarrow> queueLimit p \<le> length (queue p)"

text \<open>
  Modelled from the spec: \<open>NewPusher\<close> of \<^verbatim>\<open>pusher.go\<close>. A new pipeline is bound to
  its Target and client, with the flush interval and the retry window it is given;
  its queue is empty, nobody waits on it and it is not stopped. The capacity of the
  queue is a constant of \<^verbatim>\<open>pusher.go\<close>, taken here as the first argument.
\<close>

definition NewPusher ::
  "nat \<Rightarrow> Target \<Rightarrow> service \<Rightarrow> Duration \<Rightarrow> Duration \<Rightarrow> pusher" where
  "NewPusher limit t svc flushTimeout retryDuration =
     \<lparr>PusherTarget = t, Service = svc, FlushTimeout = flushTimeout,
      RetryDuration = retryDuration, requests = [], queue = [], queueLimit = limit,
      waiting = [], flushed = [], pusherStopped = False\<rparr>"

text \<open>
  Modelled from the spec: \<open>pusher.AddEvent\<close> of \<^verbatim>\<open>pusher.go\<close>, the blocking enqueue.
  It blocks the caller until queue space is available or the pipeline is stopped: on
  a stopped pipeline the call returns and the event is not enqueued; on a running
  pipeline the event joins the queue if there is room, and otherwise the caller is
  suspended with its event, which is neither enqueued nor dropped.
\<close>

definition pusher_AddEvent :: "pusher \<Rightarrow> LogEvent \<Rightarrow> pusher" where
  "pusher_AddEvent p e =
     (let p1 = p\<lparr>requests := requests p @ [Blocking e]\<rparr>
      in if pusherStopped p then p1
         else if queueFull p then p1\<lparr>waiting := waiting p @ [e]\<rparr>
         else p1\<lparr>queue := queue p @ [e]\<rparr>)"

text \<open>
  Modelled from the spec: \<open>pusher.AddEventNonBlocking\<close> of \<^verbatim>\<open>pusher.go\<close>, the
  non-blocking enqueue. It never suspends the caller: under queue saturation the
  newest event, the one of this call, is dropped and the call returns at once; on a
  stopped pipeline the event is not enqueued either.
\<close>

definition pusher_AddEventNonBlocking :: "pusher \<Rightarrow> LogEvent \<Rightarrow> pusher" where
  "pusher_AddEventNonBlocking p e =
     (let p1 = p\<lparr>requests := requests p @ [NonBlocking e]\<rparr>
      in if pusherStopped p then p1
         else if queueFull p then p1
         else p1\<lparr>queue := queue p @ [e]\<rparr>)"

text \<open>
  Modelled from the spec: one round of the background flush cycle of \<^verbatim>\<open>pusher.go\<close>,
  as far as the queue goes. The events are drained from the queue in FIFO order,
  which frees its space, and the suspended callers whose events now fit are resumed
  in order, their events enqueued. A stopped pipeline starts no new round. What the
  round does with the drained events (batches, delivery, retry) is left out.
\<close>

definition pusher_flush :: "pusher \<Rightarrow> pusher" where
  "pusher_flush p =
     (if pusherStopped p then p
      else p\<lparr>flushed := flushed p @ queue p,
             queue := take (queueLimit p) (waiting p),
             waiting := drop (queueLimit p) (waiting p)\<rparr>)"

text \<open>
  Modelled from the spec: \<open>pusher.Stop\<close> of \<^verbatim>\<open>pusher.go\<close>, the stop signal. The
  pipeline flushes what it can, the callers suspended on the queue are released
  without their events being enqueued, and the pipeline is stopped.
\<close>

definition pusher_Stop :: "pusher \<Rightarrow> pusher" where
  "pusher_Stop p =
     p\<lparr>flushed := flushed p @ queue p, queue := [], waiting := [], pusherStopped := True\<rparr>"

subsection \<open>Destinations\<close>

record cwDest =
  pusher :: pusher
  isEMF :: bool
  stopped :: bool

definition emfHeader :: handler where
  "emfHeader = CustomHeaderHandler ''x-amzn-logs-format'' ''json/emf''"

definition switchToEMF :: "cwDest \<Rightarrow> cwDest" where
  "switchToEMF cd =
     (if \<not> isEMF cd then
        (let cd1 = cd\<lparr>isEMF := True\<rparr>
         in case Service (pusher cd1) of
              CloudWatchLogsClient cwl \<Rightarrow>
                cd1\<lparr>pusher := (pusher cd1)
                      \<lparr>Service := CloudWatchLogsClient (PushBackNamed emfHeader cwl)\<rparr>\<rparr>
            | OtherService \<Rightarrow> cd1)
      else cd)"

definition setRetryer :: "cwDest \<Rightarrow> retryer \<Rightarrow> cwDest" where
  "setRetryer cd r =
     (case Service (pusher cd) of
        CloudWatchLogsClient cwl \<Rightarrow>
          cd\<lparr>pusher := (pusher cd)
                \<lparr>Service := CloudWatchLogsClient (cwl\<lparr>ClientRetryer := Some r\<rparr>)\<rparr>\<rparr>
      | OtherService \<Rightarrow> cd)"

definition AddEvent :: "cwDest \<Rightarrow> LogEvent \<Rightarrow> cwDest" where
  "AddEvent cd e =
     (if isEMF cd then cd\<lparr>pusher := pusher_AddEventNonBlocking (pusher cd) e\<rparr>
      else cd\<lparr>pusher := pusher_AddEvent (pusher cd) e\<rparr>)"

definition Stop :: "cwDest \<Rightarrow> cwDest" where
  "Stop cd = (cd\<lparr>pusher := pusher_Stop (pusher cd)\<rparr>)\<lparr>stopped := True\<rparr>"

text \<open>The test \<open>Publish\<close> makes on a message while the destination is not in EMF mode.\<close>

definition looksLikeEMF :: "string \<Rightarrow> bool" where
  "looksLikeEMF msg \<longleftrightarrow>
     HasPrefix msg ''{'' \<and> HasSuffix msg ''}'' \<and> Contains msg emfMarker"

text \<open>One round of the loop of \<open>Publish\<close>.\<close>

definition publishOne :: "cwDest \<Rightarrow> LogEvent \<Rightarrow> cwDest" where
  "publishOne cd e =
     AddEvent
       (if \<not> isEMF cd then
          (let msg = Message e in if looksLikeEMF msg then switchToEMF cd else cd)
        else cd) e"

fun publishLoop :: "cwDest \<Rightarrow> LogEvent list \<Rightarrow> cwDest" where
  "publishLoop cd [] = cd"
| "publishLoop cd (e # es) = publishLoop (publishOne cd e) es"

definition Publish :: "cwDest \<Rightarrow> LogEvent list \<Rightarrow> cwDest \<times> error option" where
  "Publish cd events =
     (let cd1 = publishLoop cd events
      in if stopped cd1 then (cd1, Some ErrOutputStopped) else (cd1, None))"

subsection \<open>The plugin and its destinations\<close>

text \<open>
  The plugin's configuration and its \<open>cwDests\<close> map from Target to \<open>*cwDest\<close>. A
  pointer is \<open>None\<close> (nil) or \<open>Some a\<close>, the address of cell \<open>a\<close> of \<open>heap\<close>;
  allocating appends a cell. \<open>Log\<close> collects what is written to the plugin's logger,
  by format string.
\<close>

record CloudWatchLogs =
  Region :: string
  EndpointOverride :: string
  AccessKey :: string
  SecretKey :: string
  RoleARN :: string
  Profile :: string
  Filename :: string
  Token :: string
  LogStreamName :: string
  LogGroupName :: string
  ForceFlushInterval :: Duration
  Log :: "log_entry list"
  cwDests :: "(Target \<times> nat option) list"
  heap :: "cwDest list"

text \<open>
  What \<^verbatim>\<open>cloudwatchlogs.go\<close> takes from other packages as values: the user agent
  string of \<open>agentinfo.UserAgent()\<close>, the capacity \<^verbatim>\<open>pusher.go\<close> gives the queue of a
  pusher, and \<open>json.Marshal\<close> of \<open>encoding/json\<close> on the content map, which returns
  the encoding (\<open>Inr\<close>) or an error (\<open>Inl\<close>).
\<close>

record externals =
  UserAgent :: string
  pusherQueueLimit :: nat
  json_Marshal :: "(string \<times> field_value) list \<Rightarrow> string + string"

text \<open>The value the factory registered in \<open>init\<close> builds.\<close>

definition newCloudWatchLogs :: CloudWatchLogs where
  "newCloudWatchLogs =
     \<lparr>Region = [], EndpointOverride = [], AccessKey = [], SecretKey = [], RoleARN = [],
      Profile = [], Filename = [], Token = [], LogStreamName = [], LogGroupName = [],
      ForceFlushInterval = defaultFlushTimeout, Log = [], cwDests = [], heap = []\<rparr>"

definition Connect :: "CloudWatchLogs \<Rightarrow> error option" where
  "Connect c = None"

text \<open>The destination that \<open>getDest\<close> builds when the map has none for the Target.\<close>

definition newCwDest :: "externals \<Rightarrow> CloudWatchLogs \<Rightarrow> Target \<Rightarrow> cwDest" where
  "newCwDest ext c t =
     (let credentialConfig =
            CredentialConfig (Region c) (AccessKey c) (SecretKey c) (RoleARN c)
              (Profile c) (Filename c) (Token c);
          client = cloudwatchlogs_New credentialConfig (EndpointOverride c);
          client1 = PushBackNamed (RequestCompressionHandler [''PutLogEvents'']) client;
          client2 = PushBackNamed (CustomHeaderHandler ''User-Agent'' (UserAgent ext)) client1;
          p = NewPusher (pusherQueueLimit ext) t (CloudWatchLogsClient client2)
                (ForceFlushInterval c) maxRetryTimeout
      in \<lparr>pusher = p, isEMF = False, stopped = False\<rparr>)"

definition getDest :: "externals \<Rightarrow> CloudWatchLogs \<Rightarrow> Target \<Rightarrow> nat option \<times> CloudWatchLogs" where
  "getDest ext c t =
     (case map_of (cwDests c) t of
        Some cwd \<Rightarrow> (cwd, c)
      | None \<Rightarrow>
          (let cwd = newCwDest ext c t;
               a = length (heap c)
           in (Some a,
               c\<lparr>cwDests := AList.update t (Some a) (cwDests c), heap := heap c @ [cwd]\<rparr>)))"

definition CreateDest ::
  "externals \<Rightarrow> CloudWatchLogs \<Rightarrow> string \<Rightarrow> string \<Rightarrow> nat option \<times> CloudWatchLogs" where
  "CreateDest ext c grp strm =
     (let grp1 = (if grp = [] then LogGroupName c else grp);
          strm1 = (if strm = [] then LogStreamName c else strm);
          t = \<lparr>Group = grp1, Stream = strm1\<rparr>
      in getDest ext c t)"

text \<open>A method called through the pointer \<open>a\<close> rewrites cell \<open>a\<close> of the heap.\<close>

definition onDest :: "nat \<Rightarrow> (cwDest \<Rightarrow> cwDest) \<Rightarrow> CloudWatchLogs \<Rightarrow> CloudWatchLogs" where
  "onDest a f c = c\<lparr>heap := (heap c)[a := f (heap c ! a)]\<rparr>"

definition logf :: "log_entry \<Rightarrow> CloudWatchLogs \<Rightarrow> CloudWatchLogs" where
  "logf e c = c\<lparr>Log := Log c @ [e]\<rparr>"

subsection \<open>Classifying a record\<close>

definition getTargetFromMetric ::
  "CloudWatchLogs \<Rightarrow> Metric \<Rightarrow> Target \<times> error option \<times> Metric" where
  "getTargetFromMetric c m =
     (let tags = Tags m
      in case map_of tags LogGroupNameTag of
           None \<Rightarrow> (\<lparr>Group = [], Stream = []\<rparr>, Some (ErrNoLogGroupName (m_name m)), m)
         | Some logGroup \<Rightarrow>
             (let m1 = RemoveTag LogGroupNameTag m
              in case map_of tags LogStreamNameTag of
                   Some logStream \<Rightarrow>
                     (\<lparr>Group = logGroup, Stream = logStream\<rparr>, None,
                      RemoveTag LogStreamNameTag m1)
                 | None \<Rightarrow>
                     (let logStream = [];
                          logStream1 = (if logStream = [] then LogStreamName c else logStream)
                      in (\<lparr>Group = logGroup, Stream = logStream1\<rparr>, None, m1))))"

text \<open>The type switch on a field value; \<open>None\<close> is its default branch.\<close>

fun convertField :: "field_value \<Rightarrow> field_value option" where
  "convertField (VInt t) = Some (VFloat64 (float64_of_int (sint t)))"
| "convertField (VInt32 t) = Some (VFloat64 (float64_of_int (sint t)))"
| "convertField (VInt64 t) = Some (VFloat64 (float64_of_int (sint t)))"
| "convertField (VUint t) = Some (VFloat64 (float64_of_int (uint t)))"
| "convertField (VUint32 t) = Some (VFloat64 (float64_of_int (uint t)))"
| "convertField (VUint64 t) = Some (VFloat64 (float64_of_int (uint t)))"
| "convertField (VFloat64 t) = Some (VFloat64 t)"
| "convertField (VBool t) = Some (VBool t)"
| "convertField (VString t) = Some (VString t)"
| "convertField (VTime t) = Some (VFloat64 (float64_of_int (sint (Unix t))))"
| "convertField (VOther ty) = None"

text \<open>The loop over the names listed in the \<open>attributesInFields\<close> tag.\<close>

fun promoteAttributes ::
  "string list \<Rightarrow> (string \<times> field_value) list \<Rightarrow> (string \<times> field_value) list \<Rightarrow> Metric
     \<Rightarrow> (string \<times> field_value) list \<times> Metric" where
  "promoteAttributes [] mFields content metric = (content, metric)"
| "promoteAttributes (attr # attrs) mFields content metric =
     (case map_of mFields attr of
        Some fieldVal \<Rightarrow>
          promoteAttributes attrs mFields (AList.update attr fieldVal content)
            (RemoveField attr metric)
      | None \<Rightarrow> promoteAttributes attrs mFields content metric)"

text \<open>The loop that copies the remaining tags.\<close>

fun copyTags ::
  "(string \<times> string) list \<Rightarrow> (string \<times> field_value) list \<Rightarrow> (string \<times> field_value) list" where
  "copyTags [] content = content"
| "copyTags ((k, v) # tags) content = copyTags tags (AList.update k (VString v) content)"

text \<open>The loop over the remaining fields; \<open>None\<close> when the default branch returns.\<close>

fun convertFields ::
  "(string \<times> field_value) list \<Rightarrow> (string \<times> field_value) list
     \<Rightarrow> (string \<times> field_value) list option" where
  "convertFields [] content = Some content"
| "convertFields ((k, v) # kvs) content =
     (case convertField v of
        None \<Rightarrow> None
      | Some val \<Rightarrow> convertFields kvs (AList.update k val content))"

text \<open>
  The content map of a record that has no \<open>value\<close> field, as it stands when
  \<open>json.Marshal\<close> is called, with the metric as the removals have left it; \<open>None\<close>
  when the loop over the fields has met a value of a type it does not convert.
\<close>

definition buildContent :: "Metric \<Rightarrow> (string \<times> field_value) list option \<times> Metric" where
  "buildContent metric =
     (let content = [];
          tags = Tags metric;
          (content1, metric1, tags1) =
            (case map_of tags attributesInFields of
               Some val \<Rightarrow>
                 (let attributes = Split val (CHR '','');
                      mFields = Fields metric;
                      (content', metric') =
                        promoteAttributes attributes mFields content metric
                  in (content', RemoveTag attributesInFields metric',
                      AList.delete attributesInFields tags))
             | None \<Rightarrow> (content, metric, tags));
          content2 = copyTags tags1 content1
      in (convertFields (Fields metric1) content2, metric1))"

definition getLogEventFromMetric ::
  "externals \<Rightarrow> CloudWatchLogs \<Rightarrow> Metric \<Rightarrow> LogEvent option \<times> CloudWatchLogs \<times> Metric" where
  "getLogEventFromMetric ext c metric =
     (if HasField metric LogEntryField then
        (case map_of (Fields metric) LogEntryField of
           Some (VString message) \<Rightarrow>
             (Some \<lparr>Message = message, EventTime = m_time metric\<rparr>, c, metric)
         | _ \<Rightarrow>
             (None, logf (Warnf ''The log entry value field is not string type: %v'') c,
              metric))
      else
        (case buildContent metric of
           (None, metric1) \<Rightarrow>
             (None,
              logf (Errorf ''Detected unexpected fields (%s,%v) when encoding structured log event, value type %T is not supported'') c,
              metric1)
         | (Some content, metric1) \<Rightarrow>
             (case json_Marshal ext content of
                Inl err \<Rightarrow>
                  (Some \<lparr>Message = [], EventTime = m_time metric1\<rparr>,
                   logf (Errorf ''Unalbe to marshal structured log content: %v'') c,
                   metric1)
              | Inr jsonMap \<Rightarrow>
                  (Some \<lparr>Message = jsonMap, EventTime = m_time metric1\<rparr>, c, metric1))))"

subsection \<open>Writing records\<close>

definition writeMetricAsStructuredLog ::
  "externals \<Rightarrow> CloudWatchLogs \<Rightarrow> Metric \<Rightarrow> CloudWatchLogs \<times> Metric" where
  "writeMetricAsStructuredLog ext c m =
     (let (t, err, m1) = getTargetFromMetric c m;
          c1 = (if err \<noteq> None then logf (Errorf ''Failed to find target: %v'') c else c);
          (cwd, c2) = getDest ext c1 t
      in case cwd of
           None \<Rightarrow>
             (logf (Warnf ''unable to find log destination, group: %v, stream: %v'') c2, m1)
         | Some a \<Rightarrow>
             (let c3 = onDest a switchToEMF c2;
                  c4 = onDest a
                         (\<lambda>cd. cd\<lparr>pusher := (pusher cd)\<lparr>RetryDuration := metricRetryTimeout\<rparr>\<rparr>)
                         c3;
                  (e, c5, m2) = getLogEventFromMetric ext c4 m1
              in case e of
                   None \<Rightarrow> (c5, m2)
                 | Some ev \<Rightarrow> (onDest a (\<lambda>cd. AddEvent cd ev) c5, m2)))"

text \<open>
  \<open>Write\<close> receives a slice of references to metric objects, and
  \<open>writeMetricAsStructuredLog\<close> changes the object it is given. The objects are the
  cells of a list and a reference is the address of a cell, so that an object the
  slice lists twice is written the second time as the first time has left it. An
  address outside the list stands for a nil reference, through which the first
  method call panics: the result \<open>None\<close>.
\<close>

fun writeLoop ::
  "externals \<Rightarrow> CloudWatchLogs \<Rightarrow> Metric list \<Rightarrow> nat list
     \<Rightarrow> (CloudWatchLogs \<times> Metric list) option" where
  "writeLoop ext c objs [] = Some (c, objs)"
| "writeLoop ext c objs (r # rs) =
     (if r < length objs then
        (let (c1, m1) = writeMetricAsStructuredLog ext c (objs ! r)
         in writeLoop ext c1 (objs[r := m1]) rs)
      else None)"

definition Write ::
  "externals \<Rightarrow> CloudWatchLogs \<Rightarrow> Metric list \<Rightarrow> nat list
     \<Rightarrow> (error option \<times> CloudWatchLogs \<times> Metric list) option" where
  "Write ext c objs metrics =
     (case writeLoop ext c objs metrics of
        None \<Rightarrow> None
      | Some (c1, objs1) \<Rightarrow> Some (None, c1, objs1))"

text \<open>
  \<open>Close\<close> stops every destination of the map; calling \<open>Stop\<close> through a nil pointer
  panics, which is the result \<open>None\<close>.
\<close>

fun stopAll :: "(Target \<times> nat option) list \<Rightarrow> cwDest list \<Rightarrow> cwDest list option" where
  "stopAll [] h = Some h"
| "stopAll ((t, d) # ds) h =
     (case d of
        None \<Rightarrow> None
      | Some a \<Rightarrow> stopAll ds (h[a := Stop (h ! a)]))"

definition Close :: "CloudWatchLogs \<Rightarrow> (error option \<times> CloudWatchLogs) option" where
  "Close c =
     (case stopAll (AList.clearjunk (cwDests c)) (heap c) of
        None \<Rightarrow> None
      | Some h \<Rightarrow> Some (None, c\<lparr>heap := h\<rparr>))"

subsection \<open>Sequences of calls\<close>

text \<open>
  The methods of a destination, and the assignment to \<open>pusher.RetryDuration\<close> that
  \<open>writeMetricAsStructuredLog\<close> makes, as calls on one \<open>cwDest\<close>.
\<close>

datatype dest_call =
    CallPublish "LogEvent list"
  | CallStop
  | CallAddEvent LogEvent
  | CallSwitchToEMF
  | CallSetRetryer retryer
  | CallSetRetryDuration Duration

fun applyDestCall :: "cwDest \<Rightarrow> dest_call \<Rightarrow> cwDest" where
  "applyDestCall cd (CallPublish events) = fst (Publish cd events)"
| "applyDestCall cd CallStop = Stop cd"
| "applyDestCall cd (CallAddEvent e) = AddEvent cd e"
| "applyDestCall cd CallSwitchToEMF = switchToEMF cd"
| "applyDestCall cd (CallSetRetryer r) = setRetryer cd r"
| "applyDestCall cd (CallSetRetryDuration d) =
     cd\<lparr>pusher := (pusher cd)\<lparr>RetryDuration := d\<rparr>\<rparr>"

fun applyDestCalls :: "cwDest \<Rightarrow> dest_call list \<Rightarrow> cwDest" where
  "applyDestCalls cd [] = cd"
| "applyDestCalls cd (x # xs) = applyDestCalls (applyDestCall cd x) xs"

text \<open>
  The calls on the plugin: its lifecycle methods, \<open>CreateDest\<close>, and a call made
  through a destination pointer that \<open>CreateDest\<close> handed out. \<open>Write\<close> comes
  with the metric objects its slice refers to. \<open>None\<close> is a panic (\<open>Close\<close> on a nil
  entry, \<open>Write\<close> of a nil metric) or a call through an address that was never
  allocated.
\<close>

datatype plugin_call =
    DoConnect
  | DoClose
  | DoWrite "Metric list" "nat list"
  | DoCreateDest string string
  | DoOnDest nat dest_call

fun step :: "externals \<Rightarrow> CloudWatchLogs \<Rightarrow> plugin_call \<Rightarrow> CloudWatchLogs option" where
  "step ext c DoConnect = Some c"
| "step ext c DoClose = map_option snd (Close c)"
| "step ext c (DoWrite objs metrics) =
     map_option (\<lambda>r. fst (snd r)) (Write ext c objs metrics)"
| "step ext c (DoCreateDest grp strm) = Some (snd (CreateDest ext c grp strm))"
| "step ext c (DoOnDest a x) =
     (if a < length (heap c) then Some (onDest a (\<lambda>cd. applyDestCall cd x) c) else None)"

fun run :: "externals \<Rightarrow> CloudWatchLogs \<Rightarrow> plugin_call list \<Rightarrow> CloudWatchLogs option" where
  "run ext c [] = Some c"
| "run ext c (x # xs) =
     (case step ext c x of
        None \<Rightarrow> None
      | Some c1 \<Rightarrow> run ext c1 xs)"

text \<open>
  Every entry of \<open>cwDests\<close> points to an allocated destination. The map starts empty
  and only \<open>getDest\<close> writes to it, so every state the plugin reaches is such.
\<close>

definition validDests :: "CloudWatchLogs \<Rightarrow> bool" where
  "validDests c \<longleftrightarrow>
     list_all (\<lambda>(t, d). case d of None \<Rightarrow> False | Some a \<Rightarrow> a < length (heap c)) (cwDests c)"

text \<open>The number of EMF header handlers on the build chain of a destination's client.\<close>

definition emfHeaders :: "cwDest \<Rightarrow> nat" where
  "emfHeaders cd =
     (case Service (pusher cd) of
        CloudWatchLogsClient cwl \<Rightarrow> count_list (BuildHandlers cwl) emfHeader
      | OtherService \<Rightarrow> 0)"

text \<open>
  A destination whose client is the SDK's carries the EMF header exactly once when it is
  in EMF mode and not at all otherwise.
\<close>

definition modeInv :: "cwDest \<Rightarrow> bool" where
  "modeInv cd \<longleftrightarrow>
     (\<exists>cwl. Service (pusher cd) = CloudWatchLogsClient cwl) \<and>
     emfHeaders cd = (if isEMF cd then 1 else 0)"

text \<open>
  How a later state of the plugin relates to an earlier one: the configured names are
  the same, every entry of \<open>cwDests\<close> is still there, no destination has been
  freed, and each destination is what calls of its own methods have made of it.
\<close>

definition grows :: "CloudWatchLogs \<Rightarrow> CloudWatchLogs \<Rightarrow> bool" where
  "grows c c' \<longleftrightarrow>
     LogGroupName c' = LogGroupName c \<and> LogStreamName c' = LogStreamName c \<and>
     (\<forall>t d. map_of (cwDests c) t = Some d \<longrightarrow> map_of (cwDests c') t = Some d) \<and>
     length (heap c) \<le> length (heap c') \<and>
     (\<forall>a < length (heap c). \<exists>calls. heap c' ! a = applyDestCalls (heap c ! a) calls)"

text \<open>
  What \<open>writeMetricAsStructuredLog\<close> does to the destination of every record before
  it looks at the record's fields.
\<close>

definition metricCalls :: "dest_call list" where
  "metricCalls = [CallSwitchToEMF, CallSetRetryDuration metricRetryTimeout]"



subsection \<open>Example inputs\<close>

text \<open>
  An instance of \<open>json.Marshal\<close> for the examples. Like \<open>encoding/json\<close> it returns an
  error for a \<open>float64\<close> that is NaN or infinite; where the encoding of a content
  map would stand, it gives the keys between braces.
\<close>

fun marshalable :: "field_value \<Rightarrow> bool" where
  "marshalable (VFloat64 NaN) = False"
| "marshalable (VFloat64 PosInf) = False"
| "marshalable (VFloat64 NegInf) = False"
| "marshalable v = True"

definition exampleMarshal :: "(string \<times> field_value) list \<Rightarrow> string + string" where
  "exampleMarshal content =
     (if list_all (\<lambda>kv. marshalable (snd kv)) content
      then Inr (''{'' @ concat (map (\<lambda>kv. fst kv @ '','') content) @ ''}'')
      else Inl ''json: unsupported value'')"

definition exampleExt :: externals where
  "exampleExt =
     \<lparr>UserAgent = ''CWAgent'', pusherQueueLimit = 2, json_Marshal = exampleMarshal\<rparr>"

definition exampleConfig :: CloudWatchLogs where
  "exampleConfig = newCloudWatchLogs\<lparr>LogStreamName := ''host-1'', LogGroupName := ''agent''\<rparr>"

definition exampleTime :: Time where
  "exampleTime = Time 1600000000 0"

definition cpuMetric :: Metric where
  "cpuMetric =
     \<lparr>m_name = ''cpu'', m_tags = [(''log_group_name'', ''g'')],
      m_fields = [(''cpu_usage_idle'', VFloat64 (Finite (199 / 2)))], m_time = exampleTime\<rparr>"

definition noGroupMetric :: Metric where
  "noGroupMetric =
     \<lparr>m_name = ''app'', m_tags = [(''host'', ''h'')],
      m_fields = [(''value'', VString ''hello'')], m_time = exampleTime\<rparr>"

definition nanMetric :: Metric where
  "nanMetric =
     \<lparr>m_name = ''cpu'', m_tags = [(''log_group_name'', ''g'')],
      m_fields = [(''cpu_usage_idle'', VFloat64 NaN)], m_time = exampleTime\<rparr>"

definition exampleTarget :: Target where
  "exampleTarget = \<lparr>Group = ''g'', Stream = ''s''\<rparr>"

definition exampleDest :: cwDest where
  "exampleDest = newCwDest exampleExt exampleConfig exampleTarget"

definition plainEvent :: LogEvent where
  "plainEvent = \<lparr>Message = ''hello'', EventTime = exampleTime\<rparr>"

definition emfEvent :: LogEvent where
  "emfEvent = \<lparr>Message = ''{'' @ emfMarker @ '':1}'', EventTime = exampleTime\<rparr>"

definition exampleCalls :: "plugin_call list" where
  "exampleCalls = [DoCreateDest ''other'' [], DoOnDest 0 (CallPublish [plainEvent]), DoClose]"




definition fullPlainDest :: cwDest where
  "fullPlainDest = applyDestCalls exampleDest [CallAddEvent plainEvent, CallAddEvent plainEvent]"

definition fullEmfDest :: cwDest where
  "fullEmfDest =
     applyDestCalls exampleDest
       [CallSwitchToEMF, CallAddEvent plainEvent, CallAddEvent plainEvent]"

section \<open>Properties\<close>

subsection \<open>Strings\<close>

lemma HasPrefix_iff: "HasPrefix s p \<longleftrightarrow> (\<exists>r. s = p @ r)"
proof
  assume "HasPrefix s p"
  then have "s = p @ drop (length p) s"
    by (metis HasPrefix_def append_take_drop_id)
  then show "\<exists>r. s = p @ r" ..
next
  assume "\<exists>r. s = p @ r"
  then show "HasPrefix s p" by (auto simp: HasPrefix_def)
qed

lemma HasSuffix_iff: "HasSuffix s x \<longleftrightarrow> (\<exists>r. s = r @ x)"
proof
  assume "HasSuffix s x"
  then have "s = take (length s - length x) s @ x"
    by (metis HasSuffix_def append_take_drop_id)
  then show "\<exists>r. s = r @ x" ..
next
  assume "\<exists>r. s = r @ x"
  then show "HasSuffix s x" by (auto simp: HasSuffix_def)
qed

lemma Contains_iff: "Contains s sub \<longleftrightarrow> (\<exists>a b. s = a @ sub @ b)"
proof (induction s)
  case Nil
  then show ?case by auto
next
  case (Cons c cs)
  note IH = Cons.IH
  show ?case
  proof
    assume "Contains (c # cs) sub"
    then consider "HasPrefix (c # cs) sub" | "Contains cs sub" by auto
    then show "\<exists>a b. c # cs = a @ sub @ b"
    proof cases
      case 1
      then obtain r where "c # cs = sub @ r" by (auto simp: HasPrefix_iff)
      then have "c # cs = [] @ sub @ r" by simp
      then show ?thesis by blast
    next
      case 2
      then obtain a b where "cs = a @ sub @ b" using IH by auto
      then have "c # cs = (c # a) @ sub @ b" by simp
      then show ?thesis by blast
    qed
  next
    assume "\<exists>a b. c # cs = a @ sub @ b"
    then obtain a b where ab: "c # cs = a @ sub @ b" by auto
    show "Contains (c # cs) sub"
    proof (cases a)
      case Nil
      then have "c # cs = sub @ b" using ab by simp
      then have "HasPrefix (c # cs) sub" unfolding HasPrefix_iff by blast
      then show ?thesis by simp
    next
      case (Cons x a')
      then have "cs = a' @ sub @ b" using ab by simp
      then have "Contains cs sub" unfolding IH by blast
      then show ?thesis by simp
    qed
  qed
qed

subsection \<open>Calls on one destination\<close>

lemma pusher_AddEvent_frame:
  "Service (pusher_AddEvent p e) = Service p"
  "RetryDuration (pusher_AddEvent p e) = RetryDuration p"
  "PusherTarget (pusher_AddEvent p e) = PusherTarget p"
  "queueLimit (pusher_AddEvent p e) = queueLimit p"
  "pusherStopped (pusher_AddEvent p e) = pusherStopped p"
  "flushed (pusher_AddEvent p e) = flushed p"
  "requests (pusher_AddEvent p e) = requests p @ [Blocking e]"
  by (simp_all add: pusher_AddEvent_def Let_def)

lemma pusher_AddEventNonBlocking_frame:
  "Service (pusher_AddEventNonBlocking p e) = Service p"
  "RetryDuration (pusher_AddEventNonBlocking p e) = RetryDuration p"
  "PusherTarget (pusher_AddEventNonBlocking p e) = PusherTarget p"
  "queueLimit (pusher_AddEventNonBlocking p e) = queueLimit p"
  "pusherStopped (pusher_AddEventNonBlocking p e) = pusherStopped p"
  "flushed (pusher_AddEventNonBlocking p e) = flushed p"
  "waiting (pusher_AddEventNonBlocking p e) = waiting p"
  "requests (pusher_AddEventNonBlocking p e) = requests p @ [NonBlocking e]"
  by (simp_all add: pusher_AddEventNonBlocking_def Let_def)

lemma isEMF_switchToEMF: "isEMF (switchToEMF cd)"
  by (simp add: switchToEMF_def Let_def split: service.splits)

lemma stopped_switchToEMF: "stopped (switchToEMF cd) = stopped cd"
  by (simp add: switchToEMF_def Let_def split: service.splits)

lemma switchToEMF_when_EMF: "isEMF cd \<Longrightarrow> switchToEMF cd = cd"
  by (simp add: switchToEMF_def)

lemma isEMF_AddEvent: "isEMF (AddEvent cd e) = isEMF cd"
  by (simp add: AddEvent_def)

lemma stopped_AddEvent: "stopped (AddEvent cd e) = stopped cd"
  by (simp add: AddEvent_def)

lemma isEMF_publishOne: "isEMF (publishOne cd e) \<longleftrightarrow> isEMF cd \<or> looksLikeEMF (Message e)"
  by (simp add: publishOne_def isEMF_AddEvent isEMF_switchToEMF Let_def)

lemma stopped_publishOne: "stopped (publishOne cd e) = stopped cd"
  by (simp add: publishOne_def stopped_AddEvent stopped_switchToEMF Let_def)

lemma isEMF_publishLoop:
  "isEMF (publishLoop cd es) \<longleftrightarrow> isEMF cd \<or> (\<exists>e \<in> set es. looksLikeEMF (Message e))"
  by (induction es arbitrary: cd) (auto simp: isEMF_publishOne)

lemma stopped_publishLoop: "stopped (publishLoop cd es) = stopped cd"
  by (induction es arbitrary: cd) (auto simp: stopped_publishOne)

lemma fst_Publish: "fst (Publish cd es) = publishLoop cd es"
  by (simp add: Publish_def Let_def)

lemma snd_Publish: "snd (Publish cd es) = (if stopped cd then Some ErrOutputStopped else None)"
  by (simp add: Publish_def Let_def stopped_publishLoop)

lemma isEMF_applyDestCall: "isEMF cd \<Longrightarrow> isEMF (applyDestCall cd x)"
  by (cases x)
     (auto simp: fst_Publish isEMF_publishLoop Stop_def isEMF_AddEvent isEMF_switchToEMF
        setRetryer_def split: service.splits)

lemma isEMF_applyDestCalls: "isEMF cd \<Longrightarrow> isEMF (applyDestCalls cd xs)"
  by (induction xs arbitrary: cd) (auto simp: isEMF_applyDestCall)

lemma stopped_applyDestCall: "stopped cd \<Longrightarrow> stopped (applyDestCall cd x)"
  by (cases x)
     (auto simp: fst_Publish stopped_publishLoop Stop_def stopped_AddEvent stopped_switchToEMF
        setRetryer_def split: service.splits)

lemma stopped_applyDestCalls: "stopped cd \<Longrightarrow> stopped (applyDestCalls cd xs)"
  by (induction xs arbitrary: cd) (auto simp: stopped_applyDestCall)

lemma not_stopped_applyDestCall:
  "x \<noteq> CallStop \<Longrightarrow> stopped (applyDestCall cd x) = stopped cd"
  by (cases x)
     (auto simp: fst_Publish stopped_publishLoop stopped_AddEvent stopped_switchToEMF
        setRetryer_def split: service.splits)

lemma not_stopped_applyDestCalls:
  "CallStop \<notin> set xs \<Longrightarrow> stopped (applyDestCalls cd xs) = stopped cd"
proof (induction xs arbitrary: cd)
  case Nil
  then show ?case by simp
next
  case (Cons x xs)
  then have "x \<noteq> CallStop" and "CallStop \<notin> set xs" by auto
  then show ?case
    using Cons.IH [of "applyDestCall cd x"] not_stopped_applyDestCall [of x cd] by simp
qed

lemma modeInv_switchToEMF: "modeInv cd \<Longrightarrow> modeInv (switchToEMF cd)"
  by (auto simp: modeInv_def switchToEMF_def emfHeaders_def PushBackNamed_def Let_def)

lemma modeInv_AddEvent: "modeInv cd \<Longrightarrow> modeInv (AddEvent cd e)"
  by (auto simp: modeInv_def AddEvent_def emfHeaders_def pusher_AddEvent_frame
      pusher_AddEventNonBlocking_frame)

lemma modeInv_publishOne: "modeInv cd \<Longrightarrow> modeInv (publishOne cd e)"
  by (simp add: publishOne_def Let_def modeInv_AddEvent modeInv_switchToEMF)

lemma modeInv_publishLoop: "modeInv cd \<Longrightarrow> modeInv (publishLoop cd es)"
  by (induction es arbitrary: cd) (auto simp: modeInv_publishOne)

lemma modeInv_applyDestCall:
  assumes "modeInv cd"
  shows "modeInv (applyDestCall cd x)"
proof (cases x)
  case (CallPublish es)
  then show ?thesis using assms by (simp add: fst_Publish modeInv_publishLoop)
next
  case CallStop
  then show ?thesis
    using assms by (auto simp: modeInv_def Stop_def pusher_Stop_def emfHeaders_def)
next
  case (CallAddEvent e)
  then show ?thesis using assms by (simp add: modeInv_AddEvent)
next
  case CallSwitchToEMF
  then show ?thesis using assms by (simp add: modeInv_switchToEMF)
next
  case (CallSetRetryer r)
  then show ?thesis
    using assms by (auto simp: modeInv_def setRetryer_def emfHeaders_def)
next
  case (CallSetRetryDuration d)
  then show ?thesis
    using assms by (auto simp: modeInv_def emfHeaders_def)
qed

lemma modeInv_applyDestCalls: "modeInv cd \<Longrightarrow> modeInv (applyDestCalls cd xs)"
  by (induction xs arbitrary: cd) (auto simp: modeInv_applyDestCall)

subsection \<open>New destinations\<close>

lemma newCwDest_plain: "\<not> isEMF (newCwDest ext c t)" "\<not> stopped (newCwDest ext c t)"
  by (simp_all add: newCwDest_def Let_def)

lemma newCwDest_RetryDuration: "RetryDuration (pusher (newCwDest ext c t)) = maxRetryTimeout"
  by (simp add: newCwDest_def Let_def NewPusher_def)

lemma modeInv_newCwDest: "modeInv (newCwDest ext c t)"
  by (simp add: modeInv_def newCwDest_def Let_def NewPusher_def emfHeaders_def
      PushBackNamed_def cloudwatchlogs_New_def emfHeader_def)

lemma getDest_miss:
  "map_of (cwDests c) t = None \<Longrightarrow>
   getDest ext c t =
     (Some (length (heap c)),
      c\<lparr>cwDests := AList.update t (Some (length (heap c))) (cwDests c),
        heap := heap c @ [newCwDest ext c t]\<rparr>)"
  by (simp add: getDest_def Let_def)

lemma getDest_hit: "map_of (cwDests c) t = Some d \<Longrightarrow> getDest ext c t = (d, c)"
  by (simp add: getDest_def)

lemma looksLikeEMF_iff:
  "looksLikeEMF m \<longleftrightarrow>
     (\<exists>r. m = ''{'' @ r) \<and> (\<exists>r. m = r @ ''}'') \<and> (\<exists>a b. m = a @ emfMarker @ b)"
  unfolding looksLikeEMF_def HasPrefix_iff HasSuffix_iff Contains_iff ..

subsection \<open>The plugin state only grows\<close>

lemma applyDestCalls_append:
  "applyDestCalls cd (xs @ ys) = applyDestCalls (applyDestCalls cd xs) ys"
  by (induction xs arbitrary: cd) auto

lemma cell_unchanged: "\<exists>calls. cd = applyDestCalls cd calls"
  by (rule exI [of _ "[]"]) simp

lemma grows_refl: "grows c c"
  unfolding grows_def using cell_unchanged by simp

lemma grows_trans:
  assumes "grows c1 c2" and "grows c2 c3"
  shows "grows c1 c3"
proof -
  have cells: "\<exists>calls. heap c3 ! a = applyDestCalls (heap c1 ! a) calls"
    if a: "a < length (heap c1)" for a
  proof -
    obtain xs where xs: "heap c2 ! a = applyDestCalls (heap c1 ! a) xs"
      using assms(1) a unfolding grows_def by blast
    have "a < length (heap c2)" using assms(1) a unfolding grows_def by simp
    then obtain ys where "heap c3 ! a = applyDestCalls (heap c2 ! a) ys"
      using assms(2) unfolding grows_def by blast
    then have "heap c3 ! a = applyDestCalls (heap c1 ! a) (xs @ ys)"
      by (simp add: xs applyDestCalls_append)
    then show ?thesis ..
  qed
  have len: "length (heap c1) \<le> length (heap c3)"
    using assms unfolding grows_def by simp
  have names: "LogGroupName c3 = LogGroupName c1" "LogStreamName c3 = LogStreamName c1"
    using assms unfolding grows_def by simp_all
  have entries: "map_of (cwDests c3) t = Some d" if "map_of (cwDests c1) t = Some d" for t d
    using assms that unfolding grows_def by blast
  show ?thesis unfolding grows_def using cells len names entries by blast
qed

lemma grows_logf: "grows c (logf e c)"
  unfolding grows_def logf_def using cell_unchanged by simp

lemma grows_onDest:
  assumes "\<And>cd. f cd = applyDestCall cd x"
  shows "grows c (onDest a f c)"
proof -
  have cells: "\<exists>calls. heap (onDest a f c) ! b = applyDestCalls (heap c ! b) calls"
    if b: "b < length (heap c)" for b
  proof (cases "b = a")
    case True
    then have "heap (onDest a f c) ! b = applyDestCalls (heap c ! b) [x]"
      using b by (simp add: onDest_def assms)
    then show ?thesis ..
  next
    case False
    then have "heap (onDest a f c) ! b = applyDestCalls (heap c ! b) []"
      by (simp add: onDest_def)
    then show ?thesis ..
  qed
  show ?thesis unfolding grows_def using cells by (simp add: onDest_def)
qed

lemma getDest_cases:
  "getDest ext c t = (d, c') \<Longrightarrow>
     (map_of (cwDests c) t = Some d \<and> c' = c) \<or>
     (map_of (cwDests c) t = None \<and> d = Some (length (heap c)) \<and>
      c' = c\<lparr>cwDests := AList.update t d (cwDests c), heap := heap c @ [newCwDest ext c t]\<rparr>)"
  by (auto simp: getDest_def Let_def split: option.splits)

lemma getDest_entry: "getDest ext c t = (d, c') \<Longrightarrow> map_of (cwDests c') t = Some d"
  by (drule getDest_cases) (auto simp: update_conv')

lemma grows_getDest:
  assumes "getDest ext c t = (d, c')"
  shows "grows c c'"
  using getDest_cases [OF assms]
proof (elim disjE conjE)
  assume "c' = c"
  then show ?thesis by (simp add: grows_refl)
next
  assume miss: "map_of (cwDests c) t = None"
    and c': "c' = c\<lparr>cwDests := AList.update t d (cwDests c), heap := heap c @ [newCwDest ext c t]\<rparr>"
  have cells: "\<exists>calls. heap c' ! a = applyDestCalls (heap c ! a) calls"
    if "a < length (heap c)" for a
  proof -
    have "heap c' ! a = applyDestCalls (heap c ! a) []"
      using that by (simp add: c' nth_append)
    then show ?thesis ..
  qed
  have entries: "map_of (cwDests c') t' = Some d'" if "map_of (cwDests c) t' = Some d'" for t' d'
    using that miss by (auto simp: c' update_conv')
  show ?thesis unfolding grows_def using cells entries by (simp add: c')
qed

lemma getLogEventFromMetric_state:
  "\<exists>es. fst (snd (getLogEventFromMetric ext c m)) = c\<lparr>Log := Log c @ es\<rparr>"
proof -
  have a: "\<exists>es. c = c\<lparr>Log := Log c @ es\<rparr>"
    by (rule exI [of _ "[]"]) simp
  have b: "\<exists>es. logf e c = c\<lparr>Log := Log c @ es\<rparr>" for e
    unfolding logf_def by blast
  show ?thesis
    unfolding getLogEventFromMetric_def Let_def
    by (simp add: a b split: option.splits field_value.splits prod.splits sum.splits)
qed

lemma grows_Log: "grows c (c\<lparr>Log := l\<rparr>)"
  unfolding grows_def using cell_unchanged by simp

lemma getLogEventFromMetric_frame:
  "cwDests (fst (snd (getLogEventFromMetric ext c m))) = cwDests c"
  "heap (fst (snd (getLogEventFromMetric ext c m))) = heap c"
proof -
  obtain es where "fst (snd (getLogEventFromMetric ext c m)) = c\<lparr>Log := Log c @ es\<rparr>"
    using getLogEventFromMetric_state by blast
  then show "cwDests (fst (snd (getLogEventFromMetric ext c m))) = cwDests c"
    "heap (fst (snd (getLogEventFromMetric ext c m))) = heap c"
    by simp_all
qed

lemma onDest_twice: "onDest a g (onDest a f c) = onDest a (\<lambda>cd. g (f cd)) c"
proof (cases "a < length (heap c)")
  case True
  then show ?thesis by (simp add: onDest_def)
next
  case False
  then show ?thesis by (simp add: onDest_def list_update_beyond)
qed

lemma onDest_Log: "onDest a f (c\<lparr>Log := l\<rparr>) = (onDest a f c)\<lparr>Log := l\<rparr>"
  by (simp add: onDest_def)

lemma writeMetric_Some:
  assumes T: "getTargetFromMetric c m = (t, err, m1)"
    and G: "getDest ext (if err \<noteq> None then logf (Errorf ''Failed to find target: %v'') c else c) t
              = (Some a, c2)"
  shows "\<exists>l calls.
           fst (writeMetricAsStructuredLog ext c m) =
             (onDest a (\<lambda>cd. applyDestCalls cd (metricCalls @ calls)) c2)\<lparr>Log := l\<rparr> \<and>
           (calls = [] \<or> (\<exists>ev. calls = [CallAddEvent ev]))"
proof -
  define c4 where
    "c4 = onDest a (\<lambda>cd. cd\<lparr>pusher := (pusher cd)\<lparr>RetryDuration := metricRetryTimeout\<rparr>\<rparr>)
            (onDest a switchToEMF c2)"
  have c4: "c4 = onDest a (\<lambda>cd. applyDestCalls cd metricCalls) c2"
    unfolding c4_def onDest_twice by (simp add: metricCalls_def)
  obtain e c5 m2 where L: "getLogEventFromMetric ext c4 m1 = (e, c5, m2)"
    by (cases "getLogEventFromMetric ext c4 m1") auto
  obtain es where "fst (snd (getLogEventFromMetric ext c4 m1)) = c4\<lparr>Log := Log c4 @ es\<rparr>"
    using getLogEventFromMetric_state by blast
  then have c5: "c5 = c4\<lparr>Log := Log c4 @ es\<rparr>" by (simp add: L)
  have W: "fst (writeMetricAsStructuredLog ext c m) =
      (case e of None \<Rightarrow> c5 | Some ev \<Rightarrow> onDest a (\<lambda>cd. AddEvent cd ev) c5)"
    unfolding writeMetricAsStructuredLog_def
    using T G L by (simp add: Let_def c4_def split: option.splits)
  show ?thesis
  proof (cases e)
    case None
    then have "fst (writeMetricAsStructuredLog ext c m) =
        (onDest a (\<lambda>cd. applyDestCalls cd (metricCalls @ [])) c2)\<lparr>Log := Log c4 @ es\<rparr>"
      using W by (simp add: c5 c4)
    then show ?thesis by blast
  next
    case (Some ev)
    then have "fst (writeMetricAsStructuredLog ext c m) =
        onDest a (\<lambda>cd. AddEvent cd ev) (c4\<lparr>Log := Log c4 @ es\<rparr>)"
      using W by (simp add: c5)
    also have "\<dots> = (onDest a (\<lambda>cd. AddEvent cd ev) c4)\<lparr>Log := Log c4 @ es\<rparr>"
      by (rule onDest_Log)
    also have "onDest a (\<lambda>cd. AddEvent cd ev) c4 =
        onDest a (\<lambda>cd. applyDestCalls cd (metricCalls @ [CallAddEvent ev])) c2"
      unfolding c4 onDest_twice by (simp add: applyDestCalls_append)
    finally show ?thesis by blast
  qed
qed

lemma writeMetric_None:
  assumes T: "getTargetFromMetric c m = (t, err, m1)"
    and G: "getDest ext (if err \<noteq> None then logf (Errorf ''Failed to find target: %v'') c else c) t
              = (None, c2)"
  shows "\<exists>l. fst (writeMetricAsStructuredLog ext c m) = c2\<lparr>Log := l\<rparr>"
proof -
  have "fst (writeMetricAsStructuredLog ext c m) =
      logf (Warnf ''unable to find log destination, group: %v, stream: %v'') c2"
    unfolding writeMetricAsStructuredLog_def using T G by (simp add: Let_def)
  then show ?thesis unfolding logf_def by blast
qed

lemma grows_onDest_calls: "grows c (onDest a (\<lambda>cd. applyDestCalls cd xs) c)"
proof -
  have cells: "\<exists>calls. heap (onDest a (\<lambda>cd. applyDestCalls cd xs) c) ! b
      = applyDestCalls (heap c ! b) calls"
    if b: "b < length (heap c)" for b
  proof (cases "b = a")
    case True
    then have "heap (onDest a (\<lambda>cd. applyDestCalls cd xs) c) ! b = applyDestCalls (heap c ! b) xs"
      using b by (simp add: onDest_def)
    then show ?thesis ..
  next
    case False
    then have "heap (onDest a (\<lambda>cd. applyDestCalls cd xs) c) ! b = applyDestCalls (heap c ! b) []"
      by (simp add: onDest_def)
    then show ?thesis ..
  qed
  show ?thesis unfolding grows_def using cells by (simp add: onDest_def)
qed

lemma grows_writeMetric: "grows c (fst (writeMetricAsStructuredLog ext c m))"
proof -
  obtain t err m1 where T: "getTargetFromMetric c m = (t, err, m1)"
    by (cases "getTargetFromMetric c m") auto
  define c1 where "c1 = (if err \<noteq> None then logf (Errorf ''Failed to find target: %v'') c else c)"
  obtain d c2 where G: "getDest ext c1 t = (d, c2)"
    by (cases "getDest ext c1 t") auto
  have "grows c c1" by (simp add: c1_def grows_logf grows_refl)
  moreover have "grows c1 c2" using G by (rule grows_getDest)
  ultimately have g2: "grows c c2" by (rule grows_trans)
  show ?thesis
  proof (cases d)
    case None
    then obtain l where "fst (writeMetricAsStructuredLog ext c m) = c2\<lparr>Log := l\<rparr>"
      using writeMetric_None [OF T, of ext c2] G by (auto simp: c1_def)
    then show ?thesis using g2 grows_Log grows_trans by metis
  next
    case (Some a)
    then obtain l calls where "fst (writeMetricAsStructuredLog ext c m) =
        (onDest a (\<lambda>cd. applyDestCalls cd (metricCalls @ calls)) c2)\<lparr>Log := l\<rparr>"
      using writeMetric_Some [OF T, of ext a c2] G by (auto simp: c1_def)
    then show ?thesis using g2 grows_Log grows_onDest_calls grows_trans by metis
  qed
qed

lemma grows_writeLoop: "writeLoop ext c objs rs = Some (c', objs') \<Longrightarrow> grows c c'"
proof (induction rs arbitrary: c objs)
  case Nil
  then show ?case by (simp add: grows_refl)
next
  case (Cons r rs)
  from Cons.prems have r: "r < length objs" by (simp split: if_splits)
  obtain c1 m1 where W: "writeMetricAsStructuredLog ext c (objs ! r) = (c1, m1)"
    by (cases "writeMetricAsStructuredLog ext c (objs ! r)") auto
  have "writeLoop ext c1 (objs[r := m1]) rs = Some (c', objs')"
    using Cons.prems r W by simp
  then have "grows c1 c'" by (rule Cons.IH)
  moreover have "grows c c1" using grows_writeMetric [of c ext "objs ! r"] W by simp
  ultimately show ?case using grows_trans by blast
qed

lemma stopAll_cells:
  "stopAll ds h = Some h' \<Longrightarrow>
   length h' = length h \<and> (\<forall>a < length h. \<exists>calls. h' ! a = applyDestCalls (h ! a) calls)"
proof (induction ds arbitrary: h)
  case Nil
  then show ?case using cell_unchanged by simp
next
  case (Cons p ds)
  obtain t d where p: "p = (t, d)" by (cases p)
  from Cons.prems p obtain b where d: "d = Some b"
    and rest: "stopAll ds (h[b := Stop (h ! b)]) = Some h'"
    by (cases d) auto
  from Cons.IH [OF rest]
  have len: "length h' = length h"
    and cells: "\<And>a. a < length h \<Longrightarrow> \<exists>calls. h' ! a = applyDestCalls ((h[b := Stop (h ! b)]) ! a) calls"
    by simp_all
  have "\<exists>calls. h' ! a = applyDestCalls (h ! a) calls" if a: "a < length h" for a
  proof -
    obtain xs where xs: "h' ! a = applyDestCalls ((h[b := Stop (h ! b)]) ! a) xs"
      using cells [OF a] by blast
    show ?thesis
    proof (cases "a = b")
      case True
      then have "h' ! a = applyDestCalls (h ! a) (CallStop # xs)" using xs a by simp
      then show ?thesis ..
    next
      case False
      then have "h' ! a = applyDestCalls (h ! a) xs" using xs by simp
      then show ?thesis ..
    qed
  qed
  then show ?case using len by simp
qed

lemma grows_Close: "Close c = Some (e, c') \<Longrightarrow> grows c c'"
proof -
  assume "Close c = Some (e, c')"
  then obtain h where h: "stopAll (AList.clearjunk (cwDests c)) (heap c) = Some h"
    and c': "c' = c\<lparr>heap := h\<rparr>"
    by (auto simp: Close_def split: option.splits)
  show ?thesis unfolding grows_def using stopAll_cells [OF h] by (simp add: c')
qed

lemma grows_step: "step ext c x = Some c' \<Longrightarrow> grows c c'"
proof (cases x)
  case DoConnect
  assume "step ext c x = Some c'"
  then show ?thesis using DoConnect by (simp add: grows_refl)
next
  case DoClose
  assume "step ext c x = Some c'"
  then obtain e where "Close c = Some (e, c')" using DoClose by auto
  then show ?thesis by (rule grows_Close)
next
  case (DoWrite objs rs)
  assume "step ext c x = Some c'"
  then obtain objs' where "writeLoop ext c objs rs = Some (c', objs')"
    using DoWrite by (auto simp: Write_def split: option.splits)
  then show ?thesis by (rule grows_writeLoop)
next
  case (DoCreateDest g s)
  assume "step ext c x = Some c'"
  then have "c' = snd (CreateDest ext c g s)" using DoCreateDest by simp
  then show ?thesis
    unfolding CreateDest_def Let_def using grows_getDest by (metis prod.collapse)
next
  case (DoOnDest a y)
  assume "step ext c x = Some c'"
  then have "c' = onDest a (\<lambda>cd. applyDestCall cd y) c"
    using DoOnDest by (simp split: if_splits)
  then show ?thesis using grows_onDest [of "\<lambda>cd. applyDestCall cd y" y c a] by simp
qed

lemma grows_run: "run ext c xs = Some c' \<Longrightarrow> grows c c'"
proof (induction xs arbitrary: c)
  case Nil
  then show ?case by (simp add: grows_refl)
next
  case (Cons x xs)
  then obtain c1 where s: "step ext c x = Some c1" and r: "run ext c1 xs = Some c'"
    by (auto split: option.splits)
  show ?case using grows_step [OF s] Cons.IH [OF r] by (rule grows_trans)
qed

lemma getDest_again: "getDest ext c t = (d, c') \<Longrightarrow> getDest ext c' t = (d, c')"
  using getDest_entry getDest_hit by metis

lemma getDest_after_run:
  assumes "getDest ext c t = (d, c1)" and "run ext c1 calls = Some c2"
  shows "getDest ext c2 t = (d, c2)"
proof -
  have "map_of (cwDests c1) t = Some d" using assms(1) by (rule getDest_entry)
  moreover have "grows c1 c2" using assms(2) by (rule grows_run)
  ultimately have "map_of (cwDests c2) t = Some d" unfolding grows_def by blast
  then show ?thesis by (rule getDest_hit)
qed

lemma getDest_names:
  "getDest ext c t = (d, c') \<Longrightarrow> LogGroupName c' = LogGroupName c \<and> LogStreamName c' = LogStreamName c"
  using grows_getDest unfolding grows_def by blast

subsection \<open>Every reachable state has valid destinations\<close>

lemma validDests_frame:
  "cwDests c' = cwDests c \<Longrightarrow> length (heap c) \<le> length (heap c') \<Longrightarrow> validDests c
     \<Longrightarrow> validDests c'"
  unfolding validDests_def list_all_iff by (fastforce split: option.splits)

lemma validDests_entry:
  "validDests c \<Longrightarrow> map_of (cwDests c) t = Some d \<Longrightarrow> \<exists>a. d = Some a \<and> a < length (heap c)"
proof -
  assume v: "validDests c" and m: "map_of (cwDests c) t = Some d"
  from m have "(t, d) \<in> set (cwDests c)" by (rule map_of_SomeD)
  with v show ?thesis
    unfolding validDests_def list_all_iff by (cases d) auto
qed

lemma set_update_subset: "set (AList.update k v al) \<subseteq> insert (k, v) (set al)"
  by (induction al) auto

lemma validDests_getDest:
  assumes "validDests c" and "getDest ext c t = (d, c')"
  shows "validDests c' \<and> (\<exists>a. d = Some a \<and> a < length (heap c'))"
  using getDest_cases [OF assms(2)]
proof (elim disjE conjE)
  assume "map_of (cwDests c) t = Some d" "c' = c"
  then show ?thesis using assms(1) validDests_entry by blast
next
  assume d: "d = Some (length (heap c))"
    and c': "c' = c\<lparr>cwDests := AList.update t d (cwDests c), heap := heap c @ [newCwDest ext c t]\<rparr>"
  have "case p of (t', d') \<Rightarrow> (case d' of None \<Rightarrow> False | Some a \<Rightarrow> a < length (heap c'))"
    if "p \<in> set (cwDests c')" for p
  proof -
    from that have "p = (t, d) \<or> p \<in> set (cwDests c)"
      using set_update_subset [of t d "cwDests c"] by (auto simp: c')
    then show ?thesis
    proof
      assume "p = (t, d)"
      then show ?thesis by (simp add: d c')
    next
      assume "p \<in> set (cwDests c)"
      then have "case p of (t', d') \<Rightarrow> (case d' of None \<Rightarrow> False | Some a \<Rightarrow> a < length (heap c))"
        using assms(1) unfolding validDests_def list_all_iff by blast
      then show ?thesis by (auto simp: c' split: option.splits)
    qed
  qed
  then have "validDests c'" unfolding validDests_def list_all_iff by blast
  then show ?thesis by (simp add: d c')
qed

lemma validDests_frame_eq:
  assumes "cwDests c' = cwDests c" and "length (heap c') = length (heap c)"
  shows "validDests c' = validDests c"
proof
  assume "validDests c'"
  then show "validDests c" using assms by (intro validDests_frame [of c c']) simp_all
next
  assume "validDests c"
  then show "validDests c'" using assms by (intro validDests_frame [of c' c]) simp_all
qed

lemma validDests_logf: "validDests (logf e c) = validDests c"
  by (rule validDests_frame_eq) (simp_all add: logf_def)

lemma validDests_Log: "validDests (c\<lparr>Log := l\<rparr>) = validDests c"
  by (rule validDests_frame_eq) simp_all

lemma validDests_onDest: "validDests (onDest a f c) = validDests c"
  by (rule validDests_frame_eq) (simp_all add: onDest_def)

lemma RetryDuration_metricCalls:
  assumes "calls = [] \<or> (\<exists>ev. calls = [CallAddEvent ev])"
  shows "RetryDuration (pusher (applyDestCalls cd (metricCalls @ calls))) = metricRetryTimeout"
  using assms
  by (auto simp: metricCalls_def AddEvent_def pusher_AddEvent_frame
      pusher_AddEventNonBlocking_frame)

lemma writeMetric_valid:
  assumes v: "validDests c"
  shows "\<exists>a c2 l calls.
           getDest ext
             (if fst (snd (getTargetFromMetric c m)) \<noteq> None
              then logf (Errorf ''Failed to find target: %v'') c else c)
             (fst (getTargetFromMetric c m)) = (Some a, c2) \<and>
           a < length (heap c2) \<and> validDests c2 \<and>
           fst (writeMetricAsStructuredLog ext c m) =
             (onDest a (\<lambda>cd. applyDestCalls cd (metricCalls @ calls)) c2)\<lparr>Log := l\<rparr> \<and>
           (calls = [] \<or> (\<exists>ev. calls = [CallAddEvent ev]))"
proof -
  obtain t err m1 where T: "getTargetFromMetric c m = (t, err, m1)"
    by (cases "getTargetFromMetric c m") auto
  define c1 where "c1 = (if err \<noteq> None then logf (Errorf ''Failed to find target: %v'') c else c)"
  obtain d c2 where G: "getDest ext c1 t = (d, c2)"
    by (cases "getDest ext c1 t") auto
  have "validDests c1" using v by (simp add: c1_def validDests_logf)
  then obtain a where a: "d = Some a" "a < length (heap c2)" and v2: "validDests c2"
    using validDests_getDest [OF _ G] by blast
  have G': "getDest ext (if err \<noteq> None then logf (Errorf ''Failed to find target: %v'') c else c) t
              = (Some a, c2)"
    using G a(1) by (simp add: c1_def)
  obtain l calls where "fst (writeMetricAsStructuredLog ext c m) =
             (onDest a (\<lambda>cd. applyDestCalls cd (metricCalls @ calls)) c2)\<lparr>Log := l\<rparr>"
      "calls = [] \<or> (\<exists>ev. calls = [CallAddEvent ev])"
    using writeMetric_Some [OF T G'] by blast
  then show ?thesis using G' a(2) v2 T by auto
qed

lemma validDests_writeMetric:
  "validDests c \<Longrightarrow> validDests (fst (writeMetricAsStructuredLog ext c m))"
  using writeMetric_valid [of c ext m] by (auto simp: validDests_Log validDests_onDest)

lemma validDests_writeLoop:
  "validDests c \<Longrightarrow> writeLoop ext c objs rs = Some (c', objs') \<Longrightarrow> validDests c'"
proof (induction rs arbitrary: c objs)
  case Nil
  then show ?case by simp
next
  case (Cons r rs)
  from Cons.prems(2) have r: "r < length objs" by (simp split: if_splits)
  obtain c1 m1 where W: "writeMetricAsStructuredLog ext c (objs ! r) = (c1, m1)"
    by (cases "writeMetricAsStructuredLog ext c (objs ! r)") auto
  have rest: "writeLoop ext c1 (objs[r := m1]) rs = Some (c', objs')"
    using Cons.prems(2) r W by simp
  have "validDests c1"
    using validDests_writeMetric [OF Cons.prems(1), of ext "objs ! r"] W by simp
  then show ?case using rest by (rule Cons.IH)
qed

lemma stopAll_valid:
  "list_all (\<lambda>(t, d). d \<noteq> None) ds \<Longrightarrow> \<exists>h'. stopAll ds h = Some h'"
  by (induction ds arbitrary: h) auto

lemma Close_valid: "validDests c \<Longrightarrow> \<exists>e c'. Close c = Some (e, c')"
proof -
  assume v: "validDests c"
  have "d \<noteq> None" if "(t, d) \<in> set (AList.clearjunk (cwDests c))" for t d
  proof -
    have "map_of (AList.clearjunk (cwDests c)) t = Some d"
      using that by (simp add: distinct_clearjunk)
    then have "map_of (cwDests c) t = Some d" by (simp add: map_of_clearjunk)
    then show ?thesis using validDests_entry [OF v] by blast
  qed
  then have "list_all (\<lambda>(t, d). d \<noteq> None) (AList.clearjunk (cwDests c))"
    unfolding list_all_iff by auto
  then obtain h' where "stopAll (AList.clearjunk (cwDests c)) (heap c) = Some h'"
    using stopAll_valid by blast
  then show ?thesis by (simp add: Close_def)
qed

lemma validDests_step: "validDests c \<Longrightarrow> step ext c x = Some c' \<Longrightarrow> validDests c'"
proof (cases x)
  case DoConnect
  assume "validDests c" "step ext c x = Some c'"
  then show ?thesis using DoConnect by simp
next
  case DoClose
  assume v: "validDests c" and "step ext c x = Some c'"
  then obtain e where cl: "Close c = Some (e, c')" using DoClose by auto
  then obtain h where h: "stopAll (AList.clearjunk (cwDests c)) (heap c) = Some h"
    and c': "c' = c\<lparr>heap := h\<rparr>"
    by (auto simp: Close_def split: option.splits)
  have "length h = length (heap c)" using stopAll_cells [OF h] by simp
  then have "validDests c' = validDests c"
    by (intro validDests_frame_eq) (simp_all add: c')
  then show ?thesis using v by simp
next
  case (DoWrite objs rs)
  assume v: "validDests c" and "step ext c x = Some c'"
  then obtain objs' where "writeLoop ext c objs rs = Some (c', objs')"
    using DoWrite by (auto simp: Write_def split: option.splits)
  then show ?thesis using v validDests_writeLoop by blast
next
  case (DoCreateDest g s)
  assume v: "validDests c" and "step ext c x = Some c'"
  then have "c' = snd (CreateDest ext c g s)" using DoCreateDest by simp
  then show ?thesis
    unfolding CreateDest_def Let_def using validDests_getDest [OF v] by (metis prod.collapse)
next
  case (DoOnDest a y)
  assume v: "validDests c" and "step ext c x = Some c'"
  then have "c' = onDest a (\<lambda>cd. applyDestCall cd y) c"
    using DoOnDest by (simp split: if_splits)
  then show ?thesis using v by (simp add: validDests_onDest)
qed

lemma validDests_run: "validDests c \<Longrightarrow> run ext c xs = Some c' \<Longrightarrow> validDests c'"
proof (induction xs arbitrary: c)
  case Nil
  then show ?case by simp
next
  case (Cons x xs)
  then obtain c1 where s: "step ext c x = Some c1" and r: "run ext c1 xs = Some c'"
    by (auto split: option.splits)
  show ?case using validDests_step [OF Cons.prems(1) s] r by (rule Cons.IH)
qed

lemma validDests_new: "cwDests c = [] \<Longrightarrow> validDests c"
  by (simp add: validDests_def)

subsection \<open>The content map\<close>














subsection \<open>One metric object listed twice\<close>

text \<open>
  \<open>getTargetFromMetric\<close> removes the group tag from the object it reads. When the
  slice given to \<open>Write\<close> lists one object twice, the second round finds the tag gone
  and goes to the Target of the empty names, where two separate objects with the
  same tags both go to the Target of the tag.
\<close>

lemma Write_one_object_twice:
  "map_option (\<lambda>r. map fst (cwDests (fst (snd r))))
     (Write exampleExt exampleConfig [cpuMetric] [0, 0])
     = Some [\<lparr>Group = ''g'', Stream = ''host-1''\<rparr>, \<lparr>Group = [], Stream = []\<rparr>]"
  "map_option (\<lambda>r. map fst (cwDests (fst (snd r))))
     (Write exampleExt exampleConfig [cpuMetric, cpuMetric] [0, 1])
     = Some [\<lparr>Group = ''g'', Stream = ''host-1''\<rparr>]"
  "Write exampleExt exampleConfig [cpuMetric] [0, 1] = None"
  by (simp_all add: Write_def writeMetricAsStructuredLog_def getTargetFromMetric_def getDest_def
      newCwDest_def getLogEventFromMetric_def buildContent_def cpuMetric_def exampleConfig_def
      newCloudWatchLogs_def exampleExt_def exampleMarshal_def Tags_def Fields_def HasField_def
      LogGroupNameTag_def LogStreamNameTag_def LogEntryField_def attributesInFields_def
      logf_def onDest_def switchToEMF_def AddEvent_def pusher_AddEventNonBlocking_def
      pusher_AddEvent_def NewPusher_def PushBackNamed_def cloudwatchlogs_New_def Let_def
      RemoveTag_def queueFull_def)

section \<open>The claims\<close>

subsection \<open>Claim C1: a record without the group tag\<close>

text \<open>
  Claim C1 says that a record whose tags lack \<open>log_group_name\<close> is dropped and that
  no destination is created for it. The code does otherwise, as this evaluation at
  one such record shows: \<open>getTargetFromMetric\<close> returns its error and the error is
  logged, but \<open>writeMetricAsStructuredLog\<close> does not return there. It goes on with
  the zero Target, so \<open>getDest\<close> enters a destination for the empty group and stream
  into the map, which was empty, and the record's event is enqueued on it.
\<close>

theorem missing_group_creates_destination:
  "map_of (Tags noGroupMetric) LogGroupNameTag = None \<and>
   getTargetFromMetric exampleConfig noGroupMetric =
     (\<lparr>Group = [], Stream = []\<rparr>, Some (ErrNoLogGroupName ''app''), noGroupMetric) \<and>
   cwDests exampleConfig = [] \<and> heap exampleConfig = [] \<and>
   cwDests (fst (writeMetricAsStructuredLog exampleExt exampleConfig noGroupMetric))
     = [(\<lparr>Group = [], Stream = []\<rparr>, Some 0)] \<and>
   Log (fst (writeMetricAsStructuredLog exampleExt exampleConfig noGroupMetric))
     = [Errorf ''Failed to find target: %v''] \<and>
   map (\<lambda>cd. (PusherTarget (pusher cd), isEMF cd, requests (pusher cd), queue (pusher cd)))
       (heap (fst (writeMetricAsStructuredLog exampleExt exampleConfig noGroupMetric)))
     = [(\<lparr>Group = [], Stream = []\<rparr>, True,
         [NonBlocking \<lparr>Message = ''hello'', EventTime = exampleTime\<rparr>],
         [\<lparr>Message = ''hello'', EventTime = exampleTime\<rparr>])]"
  by (simp add: writeMetricAsStructuredLog_def getTargetFromMetric_def getDest_def newCwDest_def
      getLogEventFromMetric_def noGroupMetric_def exampleConfig_def
      newCloudWatchLogs_def exampleExt_def Tags_def Fields_def HasField_def
      LogGroupNameTag_def LogStreamNameTag_def LogEntryField_def
      logf_def onDest_def switchToEMF_def AddEvent_def pusher_AddEventNonBlocking_def
      pusher_AddEvent_def NewPusher_def PushBackNamed_def cloudwatchlogs_New_def Let_def
      queueFull_def)

subsection \<open>Claim C2: one destination per Target\<close>

text \<open>
  Claim C2. \<open>getDest\<close> is idempotent. Once \<open>getDest\<close> has returned a pointer for a
  Target, calling it again for the same Target, at once or after any sequence of
  calls on the plugin and its destinations, returns the same pointer and leaves the
  plugin as it is: no second pipeline is built. The first call for a Target that
  the map does not hold allocates a new destination and enters it in the map; a
  call for a Target the map holds changes nothing. The destination the pointer
  leads to stays allocated and is only changed by calls of its own methods.
\<close>

theorem getDest_idempotent:
  assumes "getDest ext c t = (d, c1)" and "run ext c1 calls = Some c2"
  shows "getDest ext c1 t = (d, c1) \<and> getDest ext c2 t = (d, c2) \<and>
         (map_of (cwDests c) t = None \<longrightarrow>
            d = Some (length (heap c)) \<and> heap c1 = heap c @ [newCwDest ext c t] \<and>
            map_of (cwDests c1) = (map_of (cwDests c))(t \<mapsto> d)) \<and>
         (map_of (cwDests c) t \<noteq> None \<longrightarrow> c1 = c) \<and>
         (\<forall>a. d = Some a \<and> a < length (heap c1) \<longrightarrow>
            a < length (heap c2) \<and> (\<exists>xs. heap c2 ! a = applyDestCalls (heap c1 ! a) xs))"
proof -
  have again: "getDest ext c1 t = (d, c1)" using assms(1) by (rule getDest_again)
  have later: "getDest ext c2 t = (d, c2)" using assms by (rule getDest_after_run)
  have first: "d = Some (length (heap c)) \<and> heap c1 = heap c @ [newCwDest ext c t] \<and>
      map_of (cwDests c1) = (map_of (cwDests c))(t \<mapsto> d)"
    if "map_of (cwDests c) t = None"
    using assms(1) getDest_miss [OF that, of ext] by (auto simp: update_conv')
  have hit: "c1 = c" if "map_of (cwDests c) t \<noteq> None"
    using assms(1) that getDest_cases by fastforce
  have g: "grows c1 c2" using assms(2) by (rule grows_run)
  have same: "a < length (heap c2) \<and> (\<exists>xs. heap c2 ! a = applyDestCalls (heap c1 ! a) xs)"
    if "a < length (heap c1)" for a
    using g that unfolding grows_def by auto
  show ?thesis using again later first hit same by blast
qed

theorem getDest_idempotent_witness:
  "\<exists>c1 c2. getDest exampleExt exampleConfig exampleTarget = (Some 0, c1) \<and>
      run exampleExt c1 exampleCalls = Some c2 \<and>
      getDest exampleExt c2 exampleTarget = (Some 0, c2) \<and>
      length (heap c1) = 1 \<and> length (heap c2) = 2"
proof -
  define c1 where "c1 = snd (getDest exampleExt exampleConfig exampleTarget)"
  have g: "getDest exampleExt exampleConfig exampleTarget = (Some 0, c1)"
    unfolding c1_def
    by (simp add: getDest_def exampleConfig_def newCloudWatchLogs_def Let_def)
  have c1: "c1 = exampleConfig\<lparr>cwDests := [(exampleTarget, Some 0)], heap := [exampleDest]\<rparr>"
    unfolding c1_def
    by (simp add: getDest_def exampleConfig_def newCloudWatchLogs_def Let_def exampleDest_def)
  define c2 where "c2 = the (run exampleExt c1 exampleCalls)"
  have r: "run exampleExt c1 exampleCalls = Some c2"
    unfolding c2_def c1 exampleCalls_def
    by (simp add: CreateDest_def getDest_def Let_def exampleTarget_def exampleConfig_def
        newCloudWatchLogs_def Close_def onDest_def)
  have len2: "length (heap c2) = 2"
    unfolding c2_def c1 exampleCalls_def
    by (simp add: CreateDest_def getDest_def Let_def exampleTarget_def exampleConfig_def
        newCloudWatchLogs_def Close_def onDest_def)
  have "getDest exampleExt c2 exampleTarget = (Some 0, c2)"
    using getDest_idempotent [OF g r] by simp
  then show ?thesis using g r len2 c1 by auto
qed

subsection \<open>Claim C3: the mode of a destination is one-way\<close>

text \<open>
  Claim C3. A destination is created in plain mode with no EMF header handler.
  \<open>switchToEMF\<close> sets EMF mode, is idempotent, and adds at most one handler. No call
  on a destination, and no call on the plugin, takes a destination out of EMF mode.
  After any sequence of calls on a destination that \<open>getDest\<close> built, its client
  carries the \<open>x-amzn-logs-format\<close> handler exactly once if the destination is in EMF
  mode and not at all otherwise, so every request built once the mode is EMF has the
  header.
\<close>

theorem mode_one_way:
  "\<not> isEMF (newCwDest ext c t) \<and> emfHeaders (newCwDest ext c t) = 0 \<and>
   isEMF (switchToEMF cd) \<and> switchToEMF (switchToEMF cd) = switchToEMF cd \<and>
   emfHeaders (switchToEMF cd) \<le> emfHeaders cd + 1 \<and>
   (isEMF cd \<longrightarrow> isEMF (applyDestCalls cd calls)) \<and>
   emfHeaders (applyDestCalls (newCwDest ext c t) calls) =
     (if isEMF (applyDestCalls (newCwDest ext c t) calls) then 1 else 0) \<and>
   (a < length (heap c) \<and> isEMF (heap c ! a) \<and> run ext c pcalls = Some c' \<longrightarrow>
      a < length (heap c') \<and> isEMF (heap c' ! a))"
proof -
  have new: "\<not> isEMF (newCwDest ext c t)" by (rule newCwDest_plain)
  have inv0: "modeInv (newCwDest ext c t)" by (rule modeInv_newCwDest)
  then have h0: "emfHeaders (newCwDest ext c t) = 0" using new by (simp add: modeInv_def)
  have sw: "isEMF (switchToEMF cd)" by (rule isEMF_switchToEMF)
  then have idem: "switchToEMF (switchToEMF cd) = switchToEMF cd"
    by (rule switchToEMF_when_EMF)
  have once: "emfHeaders (switchToEMF cd) \<le> emfHeaders cd + 1"
    by (simp add: switchToEMF_def Let_def emfHeaders_def PushBackNamed_def
        split: service.splits)
  have mono: "isEMF (applyDestCalls cd calls)" if "isEMF cd"
    using that by (rule isEMF_applyDestCalls)
  have "modeInv (applyDestCalls (newCwDest ext c t) calls)"
    using inv0 by (rule modeInv_applyDestCalls)
  then have hdr: "emfHeaders (applyDestCalls (newCwDest ext c t) calls) =
     (if isEMF (applyDestCalls (newCwDest ext c t) calls) then 1 else 0)"
    by (simp add: modeInv_def)
  have plugin: "a < length (heap c') \<and> isEMF (heap c' ! a)"
    if a: "a < length (heap c)" and e: "isEMF (heap c ! a)" and r: "run ext c pcalls = Some c'"
  proof -
    have g: "grows c c'" using r by (rule grows_run)
    then obtain xs where "heap c' ! a = applyDestCalls (heap c ! a) xs"
      using a unfolding grows_def by blast
    then have "isEMF (heap c' ! a)" using e by (simp add: isEMF_applyDestCalls)
    moreover have "a < length (heap c')" using g a unfolding grows_def by simp
    ultimately show ?thesis by simp
  qed
  show ?thesis using new h0 sw idem once mono hdr plugin by blast
qed

theorem mode_one_way_witness:
  "isEMF (applyDestCalls exampleDest [CallPublish [emfEvent]]) \<and>
   isEMF (applyDestCalls exampleDest [CallPublish [emfEvent], CallPublish [plainEvent], CallStop]) \<and>
   emfHeaders (applyDestCalls exampleDest
     [CallPublish [emfEvent], CallSwitchToEMF, CallPublish [emfEvent], CallStop]) = 1"
proof -
  have shape: "looksLikeEMF (Message emfEvent)"
    by (simp add: looksLikeEMF_def HasPrefix_def HasSuffix_def emfEvent_def emfMarker_def)
  have e1: "isEMF (applyDestCalls exampleDest [CallPublish [emfEvent]])"
    by (simp add: fst_Publish isEMF_publishOne shape)
  have split: "applyDestCalls exampleDest [CallPublish [emfEvent], CallPublish [plainEvent], CallStop]
      = applyDestCalls (applyDestCalls exampleDest [CallPublish [emfEvent]])
          [CallPublish [plainEvent], CallStop]"
    by simp
  have e2: "isEMF (applyDestCalls exampleDest
      [CallPublish [emfEvent], CallPublish [plainEvent], CallStop])"
    unfolding split
    using mode_one_way [of exampleExt exampleConfig exampleTarget
        "applyDestCalls exampleDest [CallPublish [emfEvent]]"
        "[CallPublish [plainEvent], CallStop]"] e1
    by blast
  have split2: "applyDestCalls exampleDest
     [CallPublish [emfEvent], CallSwitchToEMF, CallPublish [emfEvent], CallStop]
      = applyDestCalls (applyDestCalls exampleDest [CallPublish [emfEvent]])
          [CallSwitchToEMF, CallPublish [emfEvent], CallStop]"
    by simp
  have e3: "isEMF (applyDestCalls exampleDest
     [CallPublish [emfEvent], CallSwitchToEMF, CallPublish [emfEvent], CallStop])"
    unfolding split2 using e1 by (rule isEMF_applyDestCalls)
  have "emfHeaders (applyDestCalls exampleDest
     [CallPublish [emfEvent], CallSwitchToEMF, CallPublish [emfEvent], CallStop]) = 1"
    using mode_one_way [of exampleExt exampleConfig exampleTarget exampleDest
        "[CallPublish [emfEvent], CallSwitchToEMF, CallPublish [emfEvent], CallStop]"] e3
    unfolding exampleDest_def by presburger
  then show ?thesis using e1 e2 by simp
qed

subsection \<open>Claim C4: detecting EMF on the generic log path\<close>

text \<open>
  Claim C4. While a destination is in plain mode, publishing an event switches it to
  EMF mode if and only if the message starts with \<open>{\<close>, ends with \<open>}\<close> and contains
  the marker \<open>"CloudWatchMetrics"\<close> with its quotation marks: for one round of the
  loop of \<open>Publish\<close>, for \<open>Publish\<close> of one event, and for \<open>Publish\<close> of a list of
  events, where some event of the list must have that shape. A message that fails
  one of the three tests leaves the mode as it was.
\<close>

theorem Publish_switches_iff_emf_shaped:
  assumes "\<not> isEMF cd"
  shows "(isEMF (publishOne cd e) \<longleftrightarrow>
            (\<exists>r. Message e = ''{'' @ r) \<and> (\<exists>r. Message e = r @ ''}'') \<and>
            (\<exists>a b. Message e = a @ emfMarker @ b)) \<and>
         (isEMF (fst (Publish cd [e])) \<longleftrightarrow>
            (\<exists>r. Message e = ''{'' @ r) \<and> (\<exists>r. Message e = r @ ''}'') \<and>
            (\<exists>a b. Message e = a @ emfMarker @ b)) \<and>
         (isEMF (fst (Publish cd events)) \<longleftrightarrow>
            (\<exists>e \<in> set events.
               (\<exists>r. Message e = ''{'' @ r) \<and> (\<exists>r. Message e = r @ ''}'') \<and>
               (\<exists>a b. Message e = a @ emfMarker @ b)))"
proof -
  have one: "isEMF (publishOne cd e) \<longleftrightarrow> looksLikeEMF (Message e)"
    using assms by (simp add: isEMF_publishOne)
  have single: "isEMF (fst (Publish cd [e])) \<longleftrightarrow> looksLikeEMF (Message e)"
    using assms by (simp add: fst_Publish isEMF_publishOne)
  have many: "isEMF (fst (Publish cd events)) \<longleftrightarrow> (\<exists>e \<in> set events. looksLikeEMF (Message e))"
    using assms by (simp add: fst_Publish isEMF_publishLoop)
  show ?thesis
    unfolding one single many looksLikeEMF_iff by simp
qed

theorem Publish_switches_iff_emf_shaped_witness:
  "\<not> isEMF exampleDest \<and> isEMF (fst (Publish exampleDest [emfEvent])) \<and>
   \<not> isEMF (fst (Publish exampleDest [plainEvent])) \<and>
   \<not> isEMF (fst (Publish exampleDest
      [\<lparr>Message = ''{'' @ emfMarker, EventTime = exampleTime\<rparr>]))"
proof -
  have plain: "\<not> isEMF exampleDest"
    by (simp add: exampleDest_def newCwDest_plain)
  have shapes: "looksLikeEMF (Message emfEvent)" "\<not> looksLikeEMF (Message plainEvent)"
      "\<not> looksLikeEMF (''{'' @ emfMarker)"
    by (simp_all add: looksLikeEMF_def HasPrefix_def HasSuffix_def emfEvent_def plainEvent_def
        emfMarker_def)
  have a: "isEMF (fst (Publish exampleDest [emfEvent]))"
    using Publish_switches_iff_emf_shaped [OF plain, of emfEvent "[]"] shapes(1)
    unfolding looksLikeEMF_iff by blast
  have b: "\<not> isEMF (fst (Publish exampleDest [plainEvent]))"
    using Publish_switches_iff_emf_shaped [OF plain, of plainEvent "[]"] shapes(2)
    unfolding looksLikeEMF_iff by blast
  have c: "\<not> isEMF (fst (Publish exampleDest
      [\<lparr>Message = ''{'' @ emfMarker, EventTime = exampleTime\<rparr>]))"
    using Publish_switches_iff_emf_shaped [OF plain,
        of "\<lparr>Message = ''{'' @ emfMarker, EventTime = exampleTime\<rparr>" "[]"] shapes(3)
    unfolding looksLikeEMF_iff by simp
  show ?thesis using plain a b c by simp
qed

subsection \<open>Claim C5: a content map that cannot be encoded\<close>

text \<open>
  Claim C5 says that no event is produced when \<open>json.Marshal\<close> fails. The code does
  otherwise, as this evaluation at a record with a NaN field shows: the content map
  is built, \<open>json.Marshal\<close> returns an error and the error is logged, but
  \<open>getLogEventFromMetric\<close> does not return there. It returns an event whose message
  is the empty string, and \<open>writeMetricAsStructuredLog\<close> enqueues that event.
\<close>

theorem marshal_failure_emits_empty_event:
  "getTargetFromMetric exampleConfig nanMetric =
     (\<lparr>Group = ''g'', Stream = ''host-1''\<rparr>, None, nanMetric\<lparr>m_tags := []\<rparr>) \<and>
   \<not> HasField (nanMetric\<lparr>m_tags := []\<rparr>) LogEntryField \<and>
   buildContent (nanMetric\<lparr>m_tags := []\<rparr>)
     = (Some [(''cpu_usage_idle'', VFloat64 NaN)], nanMetric\<lparr>m_tags := []\<rparr>) \<and>
   json_Marshal exampleExt [(''cpu_usage_idle'', VFloat64 NaN)]
     = Inl ''json: unsupported value'' \<and>
   getLogEventFromMetric exampleExt exampleConfig (nanMetric\<lparr>m_tags := []\<rparr>)
     = (Some \<lparr>Message = [], EventTime = exampleTime\<rparr>,
        logf (Errorf ''Unalbe to marshal structured log content: %v'') exampleConfig,
        nanMetric\<lparr>m_tags := []\<rparr>) \<and>
   Log (fst (writeMetricAsStructuredLog exampleExt exampleConfig nanMetric))
     = [Errorf ''Unalbe to marshal structured log content: %v''] \<and>
   map (\<lambda>cd. (PusherTarget (pusher cd), requests (pusher cd), queue (pusher cd)))
       (heap (fst (writeMetricAsStructuredLog exampleExt exampleConfig nanMetric)))
     = [(\<lparr>Group = ''g'', Stream = ''host-1''\<rparr>,
         [NonBlocking \<lparr>Message = [], EventTime = exampleTime\<rparr>],
         [\<lparr>Message = [], EventTime = exampleTime\<rparr>])]"
  by (simp add: writeMetricAsStructuredLog_def getTargetFromMetric_def getDest_def newCwDest_def
      getLogEventFromMetric_def buildContent_def nanMetric_def exampleConfig_def
      newCloudWatchLogs_def exampleExt_def exampleMarshal_def Tags_def Fields_def HasField_def
      LogGroupNameTag_def LogStreamNameTag_def LogEntryField_def attributesInFields_def
      logf_def onDest_def switchToEMF_def AddEvent_def pusher_AddEventNonBlocking_def
      pusher_AddEvent_def NewPusher_def PushBackNamed_def cloudwatchlogs_New_def Let_def
      RemoveTag_def queueFull_def)

subsection \<open>Claim C6: converting the fields of a metric record\<close>




subsection \<open>Claim C7: the enqueue discipline follows the mode\<close>

text \<open>
  Claim C7. \<open>AddEvent\<close> on a destination hands the event to the pusher's non-blocking
  enqueue if and only if the destination is in EMF mode, and to its blocking enqueue
  if and only if it is in plain mode. In EMF mode the caller is never suspended, and
  when the queue is full the event of the call, the newest, is dropped: nothing but
  the record of the request changes. In plain mode on a running pipeline with a full
  queue the caller is suspended, its event neither enqueued nor dropped; when the
  flush cycle frees the space, the event is enqueued and the caller resumed, and
  when the pipeline is stopped the caller is released and the event is not enqueued.
  In either mode an event that finds room on a running pipeline joins the queue, and
  on a stopped pipeline the call returns with nothing enqueued and nobody suspended.
\<close>

theorem AddEvent_enqueue_discipline:
  "(AddEvent cd e = cd\<lparr>pusher := pusher_AddEventNonBlocking (pusher cd) e\<rparr> \<longleftrightarrow> isEMF cd) \<and>
   (AddEvent cd e = cd\<lparr>pusher := pusher_AddEvent (pusher cd) e\<rparr> \<longleftrightarrow> \<not> isEMF cd) \<and>
   requests (pusher (AddEvent cd e)) =
     requests (pusher cd) @ [if isEMF cd then NonBlocking e else Blocking e] \<and>
   (isEMF cd \<longrightarrow> waiting (pusher (AddEvent cd e)) = waiting (pusher cd)) \<and>
   (isEMF cd \<and> queueFull (pusher cd) \<longrightarrow>
      AddEvent cd e =
        cd\<lparr>pusher := (pusher cd)\<lparr>requests := requests (pusher cd) @ [NonBlocking e]\<rparr>\<rparr>) \<and>
   (\<not> isEMF cd \<and> \<not> pusherStopped (pusher cd) \<and> queueFull (pusher cd) \<longrightarrow>
      waiting (pusher (AddEvent cd e)) = waiting (pusher cd) @ [e] \<and>
      queue (pusher (AddEvent cd e)) = queue (pusher cd) \<and>
      flushed (pusher (AddEvent cd e)) = flushed (pusher cd)) \<and>
   (\<not> isEMF cd \<and> \<not> pusherStopped (pusher cd) \<and> queueFull (pusher cd) \<and>
    length (waiting (pusher cd)) < queueLimit (pusher cd) \<longrightarrow>
      queue (pusher_flush (pusher (AddEvent cd e))) = waiting (pusher cd) @ [e] \<and>
      waiting (pusher_flush (pusher (AddEvent cd e))) = []) \<and>
   (\<not> isEMF cd \<and> \<not> pusherStopped (pusher cd) \<and> queueFull (pusher cd) \<longrightarrow>
      waiting (pusher (Stop (AddEvent cd e))) = [] \<and>
      queue (pusher (Stop (AddEvent cd e))) = [] \<and>
      flushed (pusher (Stop (AddEvent cd e))) = flushed (pusher cd) @ queue (pusher cd)) \<and>
   (\<not> pusherStopped (pusher cd) \<and> \<not> queueFull (pusher cd) \<longrightarrow>
      queue (pusher (AddEvent cd e)) = queue (pusher cd) @ [e] \<and>
      waiting (pusher (AddEvent cd e)) = waiting (pusher cd)) \<and>
   (pusherStopped (pusher cd) \<longrightarrow>
      queue (pusher (AddEvent cd e)) = queue (pusher cd) \<and>
      waiting (pusher (AddEvent cd e)) = waiting (pusher cd))"
proof -
  have ne: "cd\<lparr>pusher := pusher_AddEventNonBlocking (pusher cd) e\<rparr> \<noteq>
            cd\<lparr>pusher := pusher_AddEvent (pusher cd) e\<rparr>"
  proof
    assume "cd\<lparr>pusher := pusher_AddEventNonBlocking (pusher cd) e\<rparr> =
            cd\<lparr>pusher := pusher_AddEvent (pusher cd) e\<rparr>"
    then have "requests (pusher (cd\<lparr>pusher := pusher_AddEventNonBlocking (pusher cd) e\<rparr>)) =
               requests (pusher (cd\<lparr>pusher := pusher_AddEvent (pusher cd) e\<rparr>))"
      by simp
    then show False
      by (simp add: pusher_AddEventNonBlocking_frame pusher_AddEvent_frame)
  qed
  have dispatch:
    "(AddEvent cd e = cd\<lparr>pusher := pusher_AddEventNonBlocking (pusher cd) e\<rparr> \<longleftrightarrow> isEMF cd) \<and>
     (AddEvent cd e = cd\<lparr>pusher := pusher_AddEvent (pusher cd) e\<rparr> \<longleftrightarrow> \<not> isEMF cd)"
    using ne ne [symmetric] by (cases "isEMF cd") (simp_all add: AddEvent_def)
  have req: "requests (pusher (AddEvent cd e)) =
     requests (pusher cd) @ [if isEMF cd then NonBlocking e else Blocking e]"
    by (simp add: AddEvent_def pusher_AddEventNonBlocking_frame pusher_AddEvent_frame)
  have never: "waiting (pusher (AddEvent cd e)) = waiting (pusher cd)" if "isEMF cd"
    using that by (simp add: AddEvent_def pusher_AddEventNonBlocking_frame)
  have drop: "AddEvent cd e =
        cd\<lparr>pusher := (pusher cd)\<lparr>requests := requests (pusher cd) @ [NonBlocking e]\<rparr>\<rparr>"
    if "isEMF cd" "queueFull (pusher cd)"
    using that by (simp add: AddEvent_def pusher_AddEventNonBlocking_def Let_def)
  have susp: "waiting (pusher (AddEvent cd e)) = waiting (pusher cd) @ [e] \<and>
      queue (pusher (AddEvent cd e)) = queue (pusher cd) \<and>
      flushed (pusher (AddEvent cd e)) = flushed (pusher cd)"
    if "\<not> isEMF cd" "\<not> pusherStopped (pusher cd)" "queueFull (pusher cd)"
    using that by (simp add: AddEvent_def pusher_AddEvent_def Let_def)
  have space: "queue (pusher_flush (pusher (AddEvent cd e))) = waiting (pusher cd) @ [e] \<and>
      waiting (pusher_flush (pusher (AddEvent cd e))) = []"
    if "\<not> isEMF cd" "\<not> pusherStopped (pusher cd)" "queueFull (pusher cd)"
      "length (waiting (pusher cd)) < queueLimit (pusher cd)"
    using that by (simp add: AddEvent_def pusher_AddEvent_def pusher_flush_def Let_def)
  have stop: "waiting (pusher (Stop (AddEvent cd e))) = [] \<and>
      queue (pusher (Stop (AddEvent cd e))) = [] \<and>
      flushed (pusher (Stop (AddEvent cd e))) = flushed (pusher cd) @ queue (pusher cd)"
    if "\<not> isEMF cd" "\<not> pusherStopped (pusher cd)" "queueFull (pusher cd)"
    using that by (simp add: AddEvent_def pusher_AddEvent_def Stop_def pusher_Stop_def Let_def)
  have room: "queue (pusher (AddEvent cd e)) = queue (pusher cd) @ [e] \<and>
      waiting (pusher (AddEvent cd e)) = waiting (pusher cd)"
    if "\<not> pusherStopped (pusher cd)" "\<not> queueFull (pusher cd)"
    using that
    by (simp add: AddEvent_def pusher_AddEvent_def pusher_AddEventNonBlocking_def Let_def)
  have halted: "queue (pusher (AddEvent cd e)) = queue (pusher cd) \<and>
      waiting (pusher (AddEvent cd e)) = waiting (pusher cd)"
    if "pusherStopped (pusher cd)"
    using that
    by (simp add: AddEvent_def pusher_AddEvent_def pusher_AddEventNonBlocking_def Let_def)
  show ?thesis
    using dispatch req never drop susp space stop room halted by blast
qed

theorem AddEvent_enqueue_discipline_witness:
  "\<not> isEMF fullPlainDest \<and> \<not> pusherStopped (pusher fullPlainDest) \<and>
   queueFull (pusher fullPlainDest) \<and>
   queue (pusher (AddEvent fullPlainDest emfEvent)) = [plainEvent, plainEvent] \<and>
   waiting (pusher (AddEvent fullPlainDest emfEvent)) = [emfEvent] \<and>
   queue (pusher_flush (pusher (AddEvent fullPlainDest emfEvent))) = [emfEvent] \<and>
   flushed (pusher_flush (pusher (AddEvent fullPlainDest emfEvent))) = [plainEvent, plainEvent] \<and>
   waiting (pusher (Stop (AddEvent fullPlainDest emfEvent))) = [] \<and>
   isEMF fullEmfDest \<and> queueFull (pusher fullEmfDest) \<and>
   queue (pusher (AddEvent fullEmfDest emfEvent)) = [plainEvent, plainEvent] \<and>
   waiting (pusher (AddEvent fullEmfDest emfEvent)) = [] \<and>
   requests (pusher (AddEvent fullEmfDest emfEvent))
     = [NonBlocking plainEvent, NonBlocking plainEvent, NonBlocking emfEvent] \<and>
   \<not> queueFull (pusher exampleDest) \<and>
   queue (pusher (AddEvent exampleDest plainEvent)) = [plainEvent]"
proof -
  have plain: "\<not> isEMF fullPlainDest" "\<not> pusherStopped (pusher fullPlainDest)"
    "queueFull (pusher fullPlainDest)" "queue (pusher fullPlainDest) = [plainEvent, plainEvent]"
    "waiting (pusher fullPlainDest) = []" "queueLimit (pusher fullPlainDest) = 2"
    "flushed (pusher fullPlainDest) = []"
    by (simp_all add: fullPlainDest_def exampleDest_def newCwDest_def NewPusher_def
        exampleExt_def AddEvent_def pusher_AddEvent_def queueFull_def Let_def)
  have emf: "isEMF fullEmfDest" "queueFull (pusher fullEmfDest)"
    "queue (pusher fullEmfDest) = [plainEvent, plainEvent]" "waiting (pusher fullEmfDest) = []"
    "requests (pusher fullEmfDest) = [NonBlocking plainEvent, NonBlocking plainEvent]"
    by (simp_all add: fullEmfDest_def exampleDest_def newCwDest_def NewPusher_def
        exampleExt_def AddEvent_def pusher_AddEventNonBlocking_def queueFull_def Let_def
        switchToEMF_def PushBackNamed_def cloudwatchlogs_New_def)
  have new: "\<not> isEMF exampleDest" "\<not> pusherStopped (pusher exampleDest)"
    "\<not> queueFull (pusher exampleDest)" "queue (pusher exampleDest) = []"
    by (simp_all add: exampleDest_def newCwDest_def NewPusher_def exampleExt_def
        queueFull_def Let_def)
  have fl: "flushed (pusher_flush (pusher (AddEvent fullPlainDest emfEvent)))
      = [plainEvent, plainEvent]"
    using plain by (simp add: AddEvent_def pusher_AddEvent_def pusher_flush_def Let_def)
  note a = AddEvent_enqueue_discipline [of fullPlainDest emfEvent]
  note b = AddEvent_enqueue_discipline [of fullEmfDest emfEvent]
  note c = AddEvent_enqueue_discipline [of exampleDest plainEvent]
  have lt: "length (waiting (pusher fullPlainDest)) < queueLimit (pusher fullPlainDest)"
    using plain by simp
  have pa0:
    "waiting (pusher (AddEvent fullPlainDest emfEvent)) = waiting (pusher fullPlainDest) @ [emfEvent]"
    "queue (pusher (AddEvent fullPlainDest emfEvent)) = queue (pusher fullPlainDest)"
    "queue (pusher_flush (pusher (AddEvent fullPlainDest emfEvent)))
       = waiting (pusher fullPlainDest) @ [emfEvent]"
    "waiting (pusher (Stop (AddEvent fullPlainDest emfEvent))) = []"
    using a plain(1,2,3) lt by blast+
  have pa: "waiting (pusher (AddEvent fullPlainDest emfEvent)) = [emfEvent]"
    "queue (pusher (AddEvent fullPlainDest emfEvent)) = [plainEvent, plainEvent]"
    "queue (pusher_flush (pusher (AddEvent fullPlainDest emfEvent))) = [emfEvent]"
    "waiting (pusher (Stop (AddEvent fullPlainDest emfEvent))) = []"
    unfolding pa0 by (simp_all add: plain)
  have pb0: "waiting (pusher (AddEvent fullEmfDest emfEvent)) = waiting (pusher fullEmfDest)"
    "requests (pusher (AddEvent fullEmfDest emfEvent)) =
       requests (pusher fullEmfDest) @ [if isEMF fullEmfDest then NonBlocking emfEvent
                                         else Blocking emfEvent]"
    using b emf(1) by blast+
  have pb: "waiting (pusher (AddEvent fullEmfDest emfEvent)) = []"
    "requests (pusher (AddEvent fullEmfDest emfEvent))
       = [NonBlocking plainEvent, NonBlocking plainEvent, NonBlocking emfEvent]"
    unfolding pb0 by (simp_all add: emf)
  have "AddEvent fullEmfDest emfEvent =
      fullEmfDest\<lparr>pusher := (pusher fullEmfDest)
        \<lparr>requests := requests (pusher fullEmfDest) @ [NonBlocking emfEvent]\<rparr>\<rparr>"
    using b emf by blast
  then have pb3: "queue (pusher (AddEvent fullEmfDest emfEvent)) = [plainEvent, plainEvent]"
    using emf by simp
  have "queue (pusher (AddEvent exampleDest plainEvent)) = queue (pusher exampleDest) @ [plainEvent]"
    using c new(2,3) by blast
  then have pc: "queue (pusher (AddEvent exampleDest plainEvent)) = [plainEvent]"
    by (simp add: new)
  show ?thesis using plain emf new fl pa pb pb3 pc by simp
qed

subsection \<open>Claim C8: publishing to a stopped destination\<close>

text \<open>
  Claim C8. After \<open>Stop\<close> the destination is stopped, and \<open>Publish\<close> returns
  \<open>ErrOutputStopped\<close> then and after any further calls on the destination. A
  destination is created not stopped, and as long as \<open>Stop\<close> has not been called
  on it \<open>Publish\<close> returns no error.
\<close>

theorem Publish_after_Stop:
  "stopped (Stop cd) \<and>
   snd (Publish (applyDestCalls (Stop cd) calls) events) = Some ErrOutputStopped \<and>
   \<not> stopped (newCwDest ext c t) \<and>
   (\<not> stopped cd \<and> CallStop \<notin> set calls \<longrightarrow>
      snd (Publish (applyDestCalls cd calls) events) = None)"
proof -
  have s: "stopped (Stop cd)" by (simp add: Stop_def)
  then have "stopped (applyDestCalls (Stop cd) calls)" by (rule stopped_applyDestCalls)
  then have after: "snd (Publish (applyDestCalls (Stop cd) calls) events) = Some ErrOutputStopped"
    by (simp add: snd_Publish)
  have before: "snd (Publish (applyDestCalls cd calls) events) = None"
    if "\<not> stopped cd" "CallStop \<notin> set calls"
    using that by (simp add: snd_Publish not_stopped_applyDestCalls)
  show ?thesis using s after before newCwDest_plain(2) by blast
qed

theorem Publish_after_Stop_witness:
  "snd (Publish exampleDest [plainEvent]) = None \<and>
   snd (Publish (fst (Publish exampleDest [plainEvent, emfEvent])) [plainEvent]) = None \<and>
   snd (Publish (Stop exampleDest) [plainEvent]) = Some ErrOutputStopped \<and>
   snd (Publish (fst (Publish (Stop exampleDest) [emfEvent])) [plainEvent])
     = Some ErrOutputStopped"
  using Publish_after_Stop [of exampleDest "[]" "[plainEvent]" exampleExt exampleConfig exampleTarget]
    Publish_after_Stop [of exampleDest "[CallPublish [emfEvent]]" "[plainEvent]"]
    Publish_after_Stop [of exampleDest "[CallPublish [plainEvent, emfEvent]]" "[plainEvent]"
       exampleExt exampleConfig exampleTarget]
  by (simp add: exampleDest_def)

subsection \<open>Claim C9: the retry window of metric traffic\<close>

text \<open>
  Claim C9. Writing a record through \<open>writeMetricAsStructuredLog\<close> leaves the
  destination of the record's Target with \<open>RetryDuration\<close> equal to
  \<open>metricRetryTimeout\<close>. That constant is two minutes, strictly less than
  \<open>maxRetryTimeout\<close>, fourteen days and ten minutes, which is the retry window every
  destination is created with. It holds in every state whose map entries point to
  allocated destinations, which are all the states the plugin reaches.
\<close>

theorem metric_retry_duration:
  assumes "validDests c"
  shows "(\<exists>a. map_of (cwDests (fst (writeMetricAsStructuredLog ext c m)))
                 (fst (getTargetFromMetric c m)) = Some (Some a) \<and>
               a < length (heap (fst (writeMetricAsStructuredLog ext c m))) \<and>
               RetryDuration (pusher (heap (fst (writeMetricAsStructuredLog ext c m)) ! a))
                 = metricRetryTimeout) \<and>
         metricRetryTimeout = 2 * 60 * 1000000000 \<and>
         maxRetryTimeout = (14 * 24 * 3600 + 10 * 60) * 1000000000 \<and>
         metricRetryTimeout < maxRetryTimeout \<and>
         RetryDuration (pusher (newCwDest ext c t)) = maxRetryTimeout"
proof -
  obtain a c2 l calls where G: "getDest ext
             (if fst (snd (getTargetFromMetric c m)) \<noteq> None
              then logf (Errorf ''Failed to find target: %v'') c else c)
             (fst (getTargetFromMetric c m)) = (Some a, c2)"
    and a: "a < length (heap c2)"
    and W: "fst (writeMetricAsStructuredLog ext c m) =
             (onDest a (\<lambda>cd. applyDestCalls cd (metricCalls @ calls)) c2)\<lparr>Log := l\<rparr>"
    and calls: "calls = [] \<or> (\<exists>ev. calls = [CallAddEvent ev])"
    using writeMetric_valid [OF assms, of ext m] by blast
  have entry: "map_of (cwDests c2) (fst (getTargetFromMetric c m)) = Some (Some a)"
    using G by (rule getDest_entry)
  have "map_of (cwDests (fst (writeMetricAsStructuredLog ext c m)))
          (fst (getTargetFromMetric c m)) = Some (Some a)"
    using entry by (simp add: W onDest_def)
  moreover have "a < length (heap (fst (writeMetricAsStructuredLog ext c m)))"
    using a by (simp add: W onDest_def)
  moreover have "RetryDuration (pusher (heap (fst (writeMetricAsStructuredLog ext c m)) ! a))
      = metricRetryTimeout"
    using a RetryDuration_metricCalls [OF calls] by (simp add: W onDest_def)
  ultimately have dest: "\<exists>a. map_of (cwDests (fst (writeMetricAsStructuredLog ext c m)))
                 (fst (getTargetFromMetric c m)) = Some (Some a) \<and>
               a < length (heap (fst (writeMetricAsStructuredLog ext c m))) \<and>
               RetryDuration (pusher (heap (fst (writeMetricAsStructuredLog ext c m)) ! a))
                 = metricRetryTimeout"
    by blast
  have vals: "metricRetryTimeout = 2 * 60 * 1000000000"
    "maxRetryTimeout = (14 * 24 * 3600 + 10 * 60) * 1000000000"
    "metricRetryTimeout < maxRetryTimeout"
    by (simp_all add: metricRetryTimeout_def maxRetryTimeout_def time_Minute_def time_Hour_def
        time_Second_def)
  show ?thesis using dest vals newCwDest_RetryDuration by blast
qed

theorem metric_retry_duration_witness:
  "validDests exampleConfig \<and>
   (\<exists>a. map_of (cwDests (fst (writeMetricAsStructuredLog exampleExt exampleConfig cpuMetric)))
           \<lparr>Group = ''g'', Stream = ''host-1''\<rparr> = Some (Some a) \<and>
         RetryDuration (pusher
           (heap (fst (writeMetricAsStructuredLog exampleExt exampleConfig cpuMetric)) ! a))
           = 120000000000)"
proof -
  have v: "validDests exampleConfig"
    by (simp add: validDests_def exampleConfig_def newCloudWatchLogs_def)
  have t: "fst (getTargetFromMetric exampleConfig cpuMetric) = \<lparr>Group = ''g'', Stream = ''host-1''\<rparr>"
    by (simp add: getTargetFromMetric_def cpuMetric_def Tags_def LogGroupNameTag_def
        LogStreamNameTag_def exampleConfig_def RemoveTag_def Let_def)
  show ?thesis
    using metric_retry_duration [OF v, of exampleExt cpuMetric exampleTarget] v
    unfolding t by auto
qed

subsection \<open>Claim C10: the default names of CreateDest\<close>

text \<open>
  Claim C10. \<open>CreateDest\<close> replaces an empty group by the configured
  \<open>LogGroupName\<close> and an empty stream by the configured \<open>LogStreamName\<close> before
  it forms the Target, so \<open>CreateDest "" ""\<close> and \<open>CreateDest\<close> of the two configured
  names return the same pointer, in either order, the second of the two calls
  leaving the plugin unchanged.
\<close>

theorem CreateDest_defaults:
  "CreateDest ext c [] [] = getDest ext c \<lparr>Group = LogGroupName c, Stream = LogStreamName c\<rparr> \<and>
   CreateDest ext c grp strm =
     getDest ext c \<lparr>Group = (if grp = [] then LogGroupName c else grp),
                    Stream = (if strm = [] then LogStreamName c else strm)\<rparr> \<and>
   fst (CreateDest ext (snd (CreateDest ext c [] [])) (LogGroupName c) (LogStreamName c))
     = fst (CreateDest ext c [] []) \<and>
   snd (CreateDest ext (snd (CreateDest ext c [] [])) (LogGroupName c) (LogStreamName c))
     = snd (CreateDest ext c [] []) \<and>
   fst (CreateDest ext (snd (CreateDest ext c (LogGroupName c) (LogStreamName c))) [] [])
     = fst (CreateDest ext c (LogGroupName c) (LogStreamName c)) \<and>
   snd (CreateDest ext (snd (CreateDest ext c (LogGroupName c) (LogStreamName c))) [] [])
     = snd (CreateDest ext c (LogGroupName c) (LogStreamName c))"
proof -
  define t where "t = \<lparr>Group = LogGroupName c, Stream = LogStreamName c\<rparr>"
  have empty: "CreateDest ext c' [] [] = getDest ext c' t"
    if "LogGroupName c' = LogGroupName c" "LogStreamName c' = LogStreamName c" for c'
    using that by (simp add: CreateDest_def t_def)
  have named: "CreateDest ext c' (LogGroupName c) (LogStreamName c) = getDest ext c' t"
    if "LogGroupName c' = LogGroupName c" "LogStreamName c' = LogStreamName c" for c'
    using that by (simp add: CreateDest_def t_def)
  obtain d c1 where g: "getDest ext c t = (d, c1)" by (cases "getDest ext c t") auto
  have n1: "LogGroupName c1 = LogGroupName c" "LogStreamName c1 = LogStreamName c"
    using getDest_names [OF g] by simp_all
  have again: "getDest ext c1 t = (d, c1)" using g by (rule getDest_again)
  have gen: "CreateDest ext c grp strm =
     getDest ext c \<lparr>Group = (if grp = [] then LogGroupName c else grp),
                    Stream = (if strm = [] then LogStreamName c else strm)\<rparr>"
    by (simp add: CreateDest_def)
  show ?thesis
    unfolding gen [symmetric]
    using empty [of c] named [of c] empty [OF n1] named [OF n1] g again
    by (simp add: t_def)
qed

theorem CreateDest_defaults_witness:
  "fst (CreateDest exampleExt exampleConfig [] []) = Some 0 \<and>
   CreateDest exampleExt (snd (CreateDest exampleExt exampleConfig [] [])) ''agent'' ''host-1''
     = (Some 0, snd (CreateDest exampleExt exampleConfig [] [])) \<and>
   length (heap (snd (CreateDest exampleExt exampleConfig [] []))) = 1"
proof -
  have n: "LogGroupName exampleConfig = ''agent''" "LogStreamName exampleConfig = ''host-1''"
    by (simp_all add: exampleConfig_def)
  have a: "fst (CreateDest exampleExt exampleConfig [] []) = Some 0"
    "length (heap (snd (CreateDest exampleExt exampleConfig [] []))) = 1"
    by (simp_all add: CreateDest_def getDest_def Let_def exampleConfig_def newCloudWatchLogs_def)
  note d = CreateDest_defaults [of exampleExt exampleConfig "[]" "[]"]
  note p1 = d [THEN conjunct2, THEN conjunct2, THEN conjunct1, unfolded n]
  note p2 = d [THEN conjunct2, THEN conjunct2, THEN conjunct2, THEN conjunct1, unfolded n]
  show ?thesis
    using p1 p2 a by (simp only: prod_eq_iff fst_conv snd_conv simp_thms)
qed

end
